theory Spec2Isabelle
  imports Complex_Main "HOL-Library.Sublist" "HOL-Library.Multiset"
begin

section \<open>Text helpers shared by both source files\<close>

text \<open>
  Python strings are modelled as \<open>string\<close>, one \<open>char\<close> per code point, so only
  code points below 256 are covered. On this range \<open>str.lower\<close> maps \<open>A\<close>..\<open>Z\<close> and
  the upper-case letters of Latin-1 to their lower-case partner and leaves every other
  character alone; \<open>str.strip\<close> and \<open>str.split()\<close> treat the code points
  9..13, 28..32, 133 and 160 as white space.
\<close>

definition lower_chr :: "char \<Rightarrow> char" where
  "lower_chr c =
     (let n = (of_char c :: nat)
      in if (65 \<le> n \<and> n \<le> 90) \<or> (192 \<le> n \<and> n \<le> 222 \<and> n \<noteq> 215)
         then char_of (n + 32) else c)"


definition lower :: "string \<Rightarrow> string" where
  "lower s = map lower_chr s"

definition is_space :: "char \<Rightarrow> bool" where
  "is_space c =
     (let n = (of_char c :: nat)
      in (9 \<le> n \<and> n \<le> 13) \<or> (28 \<le> n \<and> n \<le> 32) \<or> n = 133 \<or> n = 160)"

definition strip :: "string \<Rightarrow> string" where
  "strip s = rev (dropWhile is_space (rev (dropWhile is_space s)))"

text \<open>\<open>needle in hay\<close> on Python strings.\<close>

definition py_in :: "string \<Rightarrow> string \<Rightarrow> bool" where
  "py_in needle hay = sublist needle hay"

text \<open>\<open>s.split(sep)\<close> for a one-character separator: always at least one piece.\<close>

fun split_chr :: "char \<Rightarrow> string \<Rightarrow> string list" where
  "split_chr sep [] = [ [] ]"
| "split_chr sep (c # cs) =
     (if c = sep then [] # split_chr sep cs
      else (case split_chr sep cs of
              [] \<Rightarrow> [ [c] ]
            | p # ps \<Rightarrow> (c # p) # ps))"



text \<open>\<open>sep.join(parts)\<close>.\<close>

fun join :: "string \<Rightarrow> string list \<Rightarrow> string" where
  "join sep [] = []"
| "join sep [p] = p"
| "join sep (p # q # ps) = p @ sep @ join sep (q # ps)"

section \<open>Data model of utils_agentic.py\<close>

text \<open>
  A cell of a data frame is absent (\<open>NaN\<close>, \<open>None\<close> or \<open>pd.NA\<close>, the
  values \<open>pd.isna\<close> accepts), a number or a text. Numbers are exact rationals:
  the rounding of binary floating point is outside this model.
\<close>

datatype cell = NA | Num rat | Str string

text \<open>A Python float that may be \<open>nan\<close>: the result of \<open>mean\<close> and \<open>quantile\<close>.\<close>

datatype pyfloat = NaN | Fin rat

datatype error = KeyError | TypeError | ExternalError string

datatype status = OK | FAILED

text \<open>
  The frame is taken after lines 35 to 39 of \<open>validate_data\<close>: column names are
  normalised and every expected column exists, a column the file lacked holding \<open>NA\<close>
  in every row. A row carries the nine expected columns; other columns are never read by
  the validator and are left out. The index is the default one, \<open>0, 1, 2, ...\<close>, and
  the normalised column names are distinct, so that \<open>row['age']\<close> is one cell (a frame
  with two columns of one normalised name is not covered).
\<close>

record row =
  customer_id :: cell
  name :: cell
  surname :: cell
  gender :: cell
  age :: cell
  region :: cell
  job_classification :: cell
  date_joined :: cell
  balance :: cell

text \<open>
  A frame: its rows and the two columns that line 108 and 109 add, absent (\<open>None\<close>) in
  a frame that was never validated.
\<close>

record frame =
  rows :: "row list"
  validation_issues :: "string list option"
  fix_suggestions :: "string list option"

type_synonym table = "string list \<times> cell list list"

text \<open>\<open>GraphState\<close>: a dictionary, so each key may be missing.\<close>

record graph_state =
  df_raw :: "frame option"
  df_validated :: "frame option"
  question :: "string option"
  sql :: "string option"
  result :: "table option"
  status :: "status option"

section \<open>Library operations used by the validator\<close>

definition isna :: "cell \<Rightarrow> bool" where
  "isna c = (c = NA)"

fun is_text :: "cell \<Rightarrow> bool" where
  "is_text (Str s) = True"
| "is_text c = False"

text \<open>The numbers of a column, absent cells skipped (\<open>skipna\<close>).\<close>

fun nums :: "cell list \<Rightarrow> rat list" where
  "nums [] = []"
| "nums (Num x # cs) = x # nums cs"
| "nums (c # cs) = nums cs"

text \<open>
  \<open>pd.api.types.is_numeric_dtype(column)\<close>: no cell of the column is a text. (A column
  of absent cells only counts as numeric here; its quantile is \<open>nan\<close>, which flags no
  row, as the \<open>None\<close> of an object column does.)
\<close>

definition is_numeric_dtype :: "cell list \<Rightarrow> bool" where
  "is_numeric_dtype col = (\<not> list_ex is_text col)"

text \<open>
  \<open>column.quantile(0.99)\<close> with pandas' default linear interpolation: on the sorted
  numbers \<open>xs\<close> of length \<open>n\<close> the position is \<open>0.99 * (n - 1)\<close>, whole part \<open>k\<close>,
  and the result lies between \<open>xs ! k\<close> and \<open>xs ! (k + 1)\<close>; \<open>nan\<close> without numbers.
\<close>

definition quantile99 :: "cell list \<Rightarrow> pyfloat" where
  "quantile99 col =
     (let xs = sort (nums col); n = length xs
      in if n = 0 then NaN
         else (let k = (99 * (n - 1)) div 100;
                   frac = (of_nat ((99 * (n - 1)) mod 100) :: rat) / 100
               in if k + 1 < n then Fin (xs ! k + frac * (xs ! (k + 1) - xs ! k))
                  else Fin (xs ! k)))"

text \<open>
  \<open>column.mean()\<close>: raises \<open>TypeError\<close> on a column with a text in it, is \<open>nan\<close>
  without numbers, else the sum of the numbers over their count.
\<close>

definition mean_val :: "cell list \<Rightarrow> pyfloat" where
  "mean_val col =
     (if nums col = [] then NaN
      else Fin (sum_list (nums col) / of_nat (length (nums col))))"

definition series_mean :: "cell list \<Rightarrow> error + pyfloat" where
  "series_mean col = (if list_ex is_text col then Inl TypeError else Inr (mean_val col))"

text \<open>Storing a float in a cell: \<open>nan\<close> is an absent cell.\<close>

fun cell_of :: "pyfloat \<Rightarrow> cell" where
  "cell_of NaN = NA"
| "cell_of (Fin x) = Num x"

text \<open>
  \<open>x < 0\<close> and \<open>x > t\<close> on a cell: a text against a number raises \<open>TypeError\<close>,
  and every comparison with \<open>nan\<close> is false.
\<close>

fun py_lt0 :: "cell \<Rightarrow> error + bool" where
  "py_lt0 NA = Inr False"
| "py_lt0 (Num x) = Inr (x < 0)"
| "py_lt0 (Str s) = Inl TypeError"

fun py_gt :: "cell \<Rightarrow> pyfloat \<Rightarrow> error + bool" where
  "py_gt (Str s) t = Inl TypeError"
| "py_gt (Num x) (Fin t) = Inr (x > t)"
| "py_gt c t = Inr False"

text \<open>
  The truth value of \<open>balance_thresh\<close> in \<open>if balance_thresh and ...\<close>: \<open>None\<close> and
  \<open>0.0\<close> are false, every other float is true, \<open>nan\<close> included.
\<close>

fun truthy :: "pyfloat option \<Rightarrow> bool" where
  "truthy None = False"
| "truthy (Some NaN) = True"
| "truthy (Some (Fin t)) = (t \<noteq> 0)"

subsection \<open>Decimal text of numbers\<close>

definition digit :: "nat \<Rightarrow> char" where
  "digit d = char_of (48 + d)"

fun show_nat :: "nat \<Rightarrow> string" where
  "show_nat n = (if n < 10 then [digit n] else show_nat (n div 10) @ [digit (n mod 10)])"

declare show_nat.simps [simp del]

text \<open>
  \<open>f"{x:.1f}"\<close>: the number rounded to one decimal, ties to the even digit, with the
  sign of \<open>x\<close>; \<open>nan\<close> prints as \<open>nan\<close>.
\<close>

definition round_half_even :: "rat \<Rightarrow> int" where
  "round_half_even x =
     (let f = \<lfloor>x\<rfloor>; d = x - of_int f
      in if d < 1 / 2 then f else if d > 1 / 2 then f + 1
         else if even f then f else f + 1)"

fun format_1f :: "pyfloat \<Rightarrow> string" where
  "format_1f NaN = ''nan''"
| "format_1f (Fin x) =
     (let t = nat (round_half_even (\<bar>x\<bar> * 10))
      in (if x < 0 then ''-'' else []) @ show_nat (t div 10) @ ''.'' @ show_nat (t mod 10))"

text \<open>\<open>f"AUTO-{n}"\<close>.\<close>

definition auto_name :: "nat \<Rightarrow> string" where
  "auto_name n = ''AUTO-'' @ show_nat n"

text \<open>
  \<open>astype(str)\<close> on one id: a text is itself; a number prints as Python prints it,
  which the function \<open>num_str\<close> stands for (no property of it is used).
\<close>

fun astype_str :: "(rat \<Rightarrow> string) \<Rightarrow> cell \<Rightarrow> string" where
  "astype_str num_str (Str s) = s"
| "astype_str num_str (Num x) = num_str x"
| "astype_str num_str NA = ''nan''"

subsection \<open>\<open>pd.to_datetime(value, format="%d.%b.%y")\<close>\<close>

text \<open>
  Only whether the call raises matters to the validator. An absent value gives \<open>NaT\<close>
  without raising, and so do the empty text and the texts pandas reads as \<open>NaT\<close>; a
  number is turned into its text, which never has the format; any other text must be, as
  a whole, a day of one or two digits (or a space and a digit), a dot, a month
  abbreviation in any case, a dot and two digits of year, naming a day that exists.
\<close>

definition is_digit :: "char \<Rightarrow> bool" where
  "is_digit c = (let n = (of_char c :: nat) in 48 \<le> n \<and> n \<le> 57)"

definition digit_val :: "char \<Rightarrow> nat" where
  "digit_val c = (of_char c :: nat) - 48"

definition parse_day :: "string \<Rightarrow> nat option" where
  "parse_day s =
     (case s of
        [a] \<Rightarrow> if is_digit a \<and> digit_val a \<noteq> 0 then Some (digit_val a) else None
      | [a, b] \<Rightarrow>
          if a = CHR '' '' \<and> is_digit b \<and> digit_val b \<noteq> 0 then Some (digit_val b)
          else if is_digit a \<and> is_digit b
                  \<and> 1 \<le> 10 * digit_val a + digit_val b \<and> 10 * digit_val a + digit_val b \<le> 31
               then Some (10 * digit_val a + digit_val b)
          else None
      | _ \<Rightarrow> None)"

definition month_abbrs :: "string list" where
  "month_abbrs = [''jan'', ''feb'', ''mar'', ''apr'', ''may'', ''jun'',
                  ''jul'', ''aug'', ''sep'', ''oct'', ''nov'', ''dec'']"

fun index_of :: "'a \<Rightarrow> 'a list \<Rightarrow> nat option" where
  "index_of x [] = None"
| "index_of x (y # ys) = (if x = y then Some 0 else map_option Suc (index_of x ys))"

definition parse_month :: "string \<Rightarrow> nat option" where
  "parse_month s = map_option Suc (index_of (lower s) month_abbrs)"

definition parse_year :: "string \<Rightarrow> nat option" where
  "parse_year s =
     (case s of
        [a, b] \<Rightarrow>
          if is_digit a \<and> is_digit b
          then (let y = 10 * digit_val a + digit_val b
                in Some (if y < 69 then 2000 + y else 1900 + y))
          else None
      | _ \<Rightarrow> None)"

definition days_in_month :: "nat \<Rightarrow> nat \<Rightarrow> nat" where
  "days_in_month y m =
     (if m = 2 then (if y mod 4 = 0 \<and> (y mod 100 \<noteq> 0 \<or> y mod 400 = 0) then 29 else 28)
      else if m \<in> {4, 6, 9, 11} then 30 else 31)"

definition strptime_ok :: "string \<Rightarrow> bool" where
  "strptime_ok s =
     (case split_chr CHR ''.'' s of
        [d, b, y] \<Rightarrow>
          (case (parse_day d, parse_month b, parse_year y) of
             (Some dd, Some mm, Some yy) \<Rightarrow> dd \<le> days_in_month yy mm
           | _ \<Rightarrow> False)
      | _ \<Rightarrow> False)"

definition nat_strings :: "string list" where
  "nat_strings = [ [], ''NaT'', ''nat'', ''NAT'', ''nan'', ''NaN'', ''NAN'']"

fun to_datetime_ok :: "cell \<Rightarrow> bool" where
  "to_datetime_ok NA = True"
| "to_datetime_ok (Num x) = False"
| "to_datetime_ok (Str s) = (s \<in> set nat_strings \<or> strptime_ok s)"

section \<open>The validator of utils_agentic.py\<close>

subsection \<open>Allocation of ids, lines 48 to 57\<close>

lemma digit_inj: "a < 10 \<Longrightarrow> b < 10 \<Longrightarrow> digit a = digit b \<Longrightarrow> a = b"
  unfolding digit_def by (simp add: char_of_eq_iff take_bit_nat_eq_self)

lemma show_nat_nonempty: "show_nat n \<noteq> []"
  by (subst show_nat.simps) simp

lemma show_nat_inj: "show_nat n = show_nat m \<Longrightarrow> n = m"
proof (induction n arbitrary: m rule: show_nat.induct)
  case (1 n)
  show ?case
  proof (cases "n < 10")
    case n_small: True
    show ?thesis
    proof (cases "m < 10")
      case True
      with n_small "1.prems" show ?thesis
        by (simp add: show_nat.simps [of n] show_nat.simps [of m] digit_inj)
    next
      case False
      with n_small "1.prems" show_nat_nonempty [of "m div 10"] show ?thesis
        by (simp add: show_nat.simps [of n] show_nat.simps [of m] Cons_eq_append_conv)
    qed
  next
    case n_big: False
    show ?thesis
    proof (cases "m < 10")
      case True
      with n_big "1.prems" show_nat_nonempty [of "n div 10"] show ?thesis
        by (simp add: show_nat.simps [of n] show_nat.simps [of m] append_eq_Cons_conv)
    next
      case False
      with n_big "1.prems" have eq: "show_nat (n div 10) = show_nat (m div 10)"
        and dg: "digit (n mod 10) = digit (m mod 10)"
        by (simp_all add: show_nat.simps [of n] show_nat.simps [of m])
      from "1.IH" [OF n_big eq] have "n div 10 = m div 10" .
      moreover from dg have "n mod 10 = m mod 10" by (simp add: digit_inj)
      ultimately show ?thesis by (metis div_mult_mod_eq)
    qed
  qed
qed

lemma auto_name_inj: "auto_name n = auto_name m \<Longrightarrow> n = m"
  unfolding auto_name_def by (simp add: show_nat_inj)

text \<open>
  The loop \<open>while new_id in existing_ids: auto_id_counter += 1\<close>: the first counter from
  \<open>n\<close> on whose name is not in the set of ids. The set is a list here, new ids in front.
\<close>

function next_free :: "string list \<Rightarrow> nat \<Rightarrow> nat" where
  "next_free ids n = (if auto_name n \<in> set ids then next_free ids (n + 1) else n)"
  by pat_completeness auto
termination
proof (relation "measure (\<lambda>(ids, n). card {s \<in> set ids. \<exists>k\<ge>n. s = auto_name k})")
  show "wf (measure (\<lambda>(ids, n). card {s \<in> set ids. \<exists>k\<ge>n. s = auto_name k}))"
    by simp
next
  fix ids :: "string list" and n :: nat
  assume mem: "auto_name n \<in> set ids"
  have "{s \<in> set ids. \<exists>k\<ge>n + 1. s = auto_name k} \<subset> {s \<in> set ids. \<exists>k\<ge>n. s = auto_name k}"
  proof
    show "{s \<in> set ids. \<exists>k\<ge>n + 1. s = auto_name k} \<subseteq> {s \<in> set ids. \<exists>k\<ge>n. s = auto_name k}"
      using Suc_leD by fastforce
    have "auto_name n \<in> {s \<in> set ids. \<exists>k\<ge>n. s = auto_name k}"
      using mem by auto
    moreover have "auto_name n \<notin> {s \<in> set ids. \<exists>k\<ge>n + 1. s = auto_name k}"
      using auto_name_inj by fastforce
    ultimately show "{s \<in> set ids. \<exists>k\<ge>n + 1. s = auto_name k} \<noteq> {s \<in> set ids. \<exists>k\<ge>n. s = auto_name k}"
      by blast
  qed
  then have "card {s \<in> set ids. \<exists>k\<ge>n + 1. s = auto_name k} < card {s \<in> set ids. \<exists>k\<ge>n. s = auto_name k}"
    by (intro psubset_card_mono) simp_all
  then show "((ids, n + 1), (ids, n)) \<in> measure (\<lambda>(ids, n). card {s \<in> set ids. \<exists>k\<ge>n. s = auto_name k})"
    by simp
qed

declare next_free.simps [simp del]

subsection \<open>The local variables of \<open>validate_data\<close>\<close>

record vstate =
  df :: "row list"
  existing_ids :: "string list"
  auto_id_counter :: nat
  issues :: "string list"
  "fixes" :: "string list"
  row_issues :: "string list"
  row_fixes :: "string list"

text \<open>A text in single quotes, as in the fix messages.\<close>

definition quoted :: "string \<Rightarrow> string" where
  "quoted s = [CHR 0x27] @ s @ [CHR 0x27]"

subsection \<open>The per-row rules, lines 48 to 103\<close>

text \<open>
  Each rule reads the row that \<open>iterrows\<close> handed out (\<open>row\<close>) and writes the frame
  with \<open>df.at[i, column] = value\<close>, which is \<open>(df s)[i := ...]\<close> here.
\<close>

definition rule_customer_id :: "nat \<Rightarrow> row \<Rightarrow> vstate \<Rightarrow> vstate" where
  "rule_customer_id i row s =
     (if isna (customer_id row)
      then (let n = next_free (existing_ids s) (auto_id_counter s);
                new_id = auto_name n
            in s\<lparr>df := (df s)[i := (df s ! i)\<lparr>customer_id := Str new_id\<rparr>],
                 existing_ids := new_id # existing_ids s,
                 auto_id_counter := n + 1,
                 row_issues := row_issues s @ [''Missing customer_id''],
                 row_fixes := row_fixes s @ [''Auto-generated ID: '' @ new_id]\<rparr>)
      else s)"

definition rule_name :: "nat \<Rightarrow> row \<Rightarrow> vstate \<Rightarrow> vstate" where
  "rule_name i row s =
     (if isna (name row)
      then s\<lparr>df := (df s)[i := (df s ! i)\<lparr>name := Str ''Unknown''\<rparr>],
             row_issues := row_issues s @ [''Missing name''],
             row_fixes := row_fixes s @ [''Filled name with '' @ quoted ''Unknown'']\<rparr>
      else s)"

definition rule_surname :: "nat \<Rightarrow> row \<Rightarrow> vstate \<Rightarrow> vstate" where
  "rule_surname i row s =
     (if isna (surname row)
      then s\<lparr>df := (df s)[i := (df s ! i)\<lparr>surname := Str ''Unknown''\<rparr>],
             row_issues := row_issues s @ [''Missing surname''],
             row_fixes := row_fixes s @ [''Filled surname with '' @ quoted ''Unknown'']\<rparr>
      else s)"

definition rule_gender :: "nat \<Rightarrow> row \<Rightarrow> vstate \<Rightarrow> vstate" where
  "rule_gender i row s =
     (if isna (gender row)
      then s\<lparr>df := (df s)[i := (df s ! i)\<lparr>gender := Str ''Not Specified''\<rparr>],
             row_issues := row_issues s @ [''Missing gender''],
             row_fixes := row_fixes s @ [''Filled gender with '' @ quoted ''Not Specified'']\<rparr>
      else s)"

definition rule_region :: "nat \<Rightarrow> row \<Rightarrow> vstate \<Rightarrow> vstate" where
  "rule_region i row s =
     (if isna (region row)
      then s\<lparr>df := (df s)[i := (df s ! i)\<lparr>region := Str ''Unknown''\<rparr>],
             row_issues := row_issues s @ [''Missing region''],
             row_fixes := row_fixes s @ [''Filled region with '' @ quoted ''Unknown'']\<rparr>
      else s)"

definition rule_job_classification :: "nat \<Rightarrow> row \<Rightarrow> vstate \<Rightarrow> vstate" where
  "rule_job_classification i row s =
     (if isna (job_classification row)
      then s\<lparr>df := (df s)[i := (df s ! i)\<lparr>job_classification := Str ''Other''\<rparr>],
             row_issues := row_issues s @ [''Missing job_classification''],
             row_fixes := row_fixes s @ [''Filled job_classification with '' @ quoted ''Other'']\<rparr>
      else s)"

text \<open>Lines 84 to 88: the mean is taken inside the loop, over the frame as it is then.\<close>

definition rule_age :: "nat \<Rightarrow> row \<Rightarrow> vstate \<Rightarrow> error + vstate" where
  "rule_age i row s =
     (if isna (age row)
      then (case series_mean (map age (df s)) of
              Inl e \<Rightarrow> Inl e
            | Inr avg_age \<Rightarrow>
                Inr (s\<lparr>df := (df s)[i := (df s ! i)\<lparr>age := cell_of avg_age\<rparr>],
                       row_issues := row_issues s @ [''Missing age''],
                       row_fixes := row_fixes s
                         @ [''Filled age with average age '' @ format_1f avg_age]\<rparr>))
      else Inr s)"

text \<open>Lines 90 to 93: \<open>pd.isna(row['balance']) or row['balance'] < 0\<close>.\<close>

definition rule_balance :: "nat \<Rightarrow> row \<Rightarrow> vstate \<Rightarrow> error + vstate" where
  "rule_balance i row s =
     (case (if isna (balance row) then Inr True else py_lt0 (balance row)) of
        Inl e \<Rightarrow> Inl e
      | Inr bad \<Rightarrow>
          Inr (if bad
               then s\<lparr>df := (df s)[i := (df s ! i)\<lparr>balance := Num 0\<rparr>],
                      row_issues := row_issues s @ [''Missing or negative balance''],
                      row_fixes := row_fixes s @ [''Filled balance with 0'']\<rparr>
               else s))"

text \<open>Lines 95 to 100: the bare \<open>except\<close> catches whatever the parse raises.\<close>

definition rule_date_joined :: "nat \<Rightarrow> row \<Rightarrow> vstate \<Rightarrow> vstate" where
  "rule_date_joined i row s =
     (if to_datetime_ok (date_joined row) then s
      else s\<lparr>df := (df s)[i := (df s ! i)\<lparr>date_joined := Str ''01.Jan.00''\<rparr>],
             row_issues := row_issues s @ [''Bad date format''],
             row_fixes := row_fixes s @ [''Filled with default date 01.Jan.00'']\<rparr>)"

text \<open>Lines 102 and 103: \<open>if balance_thresh and row['balance'] > balance_thresh\<close>.\<close>

definition rule_outlier :: "pyfloat option \<Rightarrow> row \<Rightarrow> vstate \<Rightarrow> error + vstate" where
  "rule_outlier balance_thresh row s =
     (case balance_thresh of
        None \<Rightarrow> Inr s
      | Some t \<Rightarrow>
          if truthy balance_thresh
          then (case py_gt (balance row) t of
                  Inl e \<Rightarrow> Inl e
                | Inr outlier \<Rightarrow>
                    Inr (if outlier then s\<lparr>row_issues := row_issues s @ [''Outlier in balance'']\<rparr>
                         else s))
          else Inr s)"

text \<open>One pass of the loop body, lines 46 to 106.\<close>

definition validate_row :: "pyfloat option \<Rightarrow> nat \<Rightarrow> row \<Rightarrow> vstate \<Rightarrow> error + vstate" where
  "validate_row balance_thresh i row s0 =
     (let s1 = rule_customer_id i row (s0\<lparr>row_issues := [], row_fixes := []\<rparr>);
          s2 = rule_name i row s1;
          s3 = rule_surname i row s2;
          s4 = rule_gender i row s3;
          s5 = rule_region i row s4;
          s6 = rule_job_classification i row s5
      in case rule_age i row s6 of
           Inl e \<Rightarrow> Inl e
         | Inr s7 \<Rightarrow>
             (case rule_balance i row s7 of
                Inl e \<Rightarrow> Inl e
              | Inr s8 \<Rightarrow>
                  (case rule_outlier balance_thresh row (rule_date_joined i row s8) of
                     Inl e \<Rightarrow> Inl e
                   | Inr s10 \<Rightarrow>
                       Inr (s10\<lparr>issues := issues s10 @ [join ''; '' (row_issues s10)],
                                 fixes := fixes s10 @ [join ''; '' (row_fixes s10)]\<rparr>))))"

text \<open>\<open>df.iterrows()\<close>: the index and the row, for each row of the frame it was called on.\<close>

definition iterrows :: "row list \<Rightarrow> (nat \<times> row) list" where
  "iterrows d = map (\<lambda>i. (i, d ! i)) [0..<length d]"

text \<open>The \<open>for\<close> loop: an exception in the body ends it.\<close>

fun for_rows :: "(nat \<Rightarrow> row \<Rightarrow> vstate \<Rightarrow> error + vstate) \<Rightarrow> (nat \<times> row) list \<Rightarrow> vstate
    \<Rightarrow> error + vstate" where
  "for_rows body [] s = Inr s"
| "for_rows body ((i, row) # rest) s =
     (case body i row s of Inl e \<Rightarrow> Inl e | Inr s' \<Rightarrow> for_rows body rest s')"

text \<open>
  \<open>validate_data\<close>, lines 31 to 111, from line 41 on. \<open>state["df_raw"]\<close> raises
  \<open>KeyError\<close> when the key is missing.
\<close>

definition validate_data :: "(rat \<Rightarrow> string) \<Rightarrow> graph_state \<Rightarrow> error + graph_state" where
  "validate_data num_str state =
     (case df_raw state of
        None \<Rightarrow> Inl KeyError
      | Some raw \<Rightarrow>
          (let d = rows raw;
               balance_thresh =
                 (if is_numeric_dtype (map balance d) then Some (quantile99 (map balance d))
                  else None);
               s0 = \<lparr>df = d,
                     existing_ids =
                       map (astype_str num_str) (filter (\<lambda>c. \<not> isna c) (map customer_id d)),
                     auto_id_counter = 100001,
                     issues = [], fixes = [], row_issues = [], row_fixes = []\<rparr>
           in case for_rows (validate_row balance_thresh) (iterrows d) s0 of
                Inl e \<Rightarrow> Inl e
              | Inr s \<Rightarrow>
                  (let out = \<lparr>rows = df s,
                             validation_issues = Some (issues s),
                             fix_suggestions = Some (fixes s)\<rparr>
                   in Inr \<lparr>df_raw = Some out, df_validated = Some out, question = None,
                           sql = None, result = None, status = Some OK\<rparr>)))"

section \<open>The question pipeline of utils_agentic.py\<close>

subsection \<open>Extraction of the statement, lines 146 and 147\<close>

text \<open>
  \<open>re.search(r"(SELECT[\s\S]+?);", text, re.IGNORECASE)\<close>, as the matcher runs it: at
  each start position from the left, the six letters in any case, then one character of
  any kind, then as few further characters as possible up to a semicolon. The group is
  what stands before that semicolon.
\<close>

definition starts_select :: "string \<Rightarrow> bool" where
  "starts_select s = (lower (take 6 s) = ''select'')"

text \<open>The shortest run of characters before a semicolon, if there is a semicolon.\<close>

fun until_semi :: "string \<Rightarrow> string option" where
  "until_semi [] = None"
| "until_semi (c # cs) = (if c = CHR '';'' then Some [] else map_option ((#) c) (until_semi cs))"

definition match_here :: "string \<Rightarrow> string option" where
  "match_here s =
     (if starts_select s
      then (case drop 6 s of
              [] \<Rightarrow> None
            | c # cs \<Rightarrow> map_option (\<lambda>m. take 6 s @ c # m) (until_semi cs))
      else None)"

fun re_search :: "string \<Rightarrow> string option" where
  "re_search [] = None"
| "re_search (c # cs) =
     (case match_here (c # cs) of Some g \<Rightarrow> Some g | None \<Rightarrow> re_search cs)"

definition extract_sql :: "string \<Rightarrow> string" where
  "extract_sql generated_text =
     (case re_search generated_text of Some g \<Rightarrow> g @ '';'' | None \<Rightarrow> [])"

text \<open>
  The reading of the specification, for comparison: from the first \<open>SELECT\<close> in any case
  that has a semicolon after it, through the next semicolon.
\<close>

definition spec_match_here :: "string \<Rightarrow> string option" where
  "spec_match_here s =
     (if starts_select s then map_option (\<lambda>m. take 6 s @ m) (until_semi (drop 6 s)) else None)"

fun spec_search :: "string \<Rightarrow> string option" where
  "spec_search [] = None"
| "spec_search (c # cs) =
     (case spec_match_here (c # cs) of Some g \<Rightarrow> Some g | None \<Rightarrow> spec_search cs)"

definition spec_extract_sql :: "string \<Rightarrow> string" where
  "spec_extract_sql generated_text =
     (case spec_search generated_text of Some g \<Rightarrow> g @ '';'' | None \<Rightarrow> [])"

subsection \<open>\<open>run_llm_sql\<close>, lines 122 to 152\<close>

definition nl :: string where
  "nl = [CHR 0x0A]"

definition dquoted :: "string \<Rightarrow> string" where
  "dquoted s = [CHR 0x22] @ s @ [CHR 0x22]"

definition prompt :: "string list \<Rightarrow> string \<Rightarrow> string" where
  "prompt columns q =
     nl @ ''Given a table named '' @ quoted ''customers'' @ '' with columns: ''
        @ join '', '' columns @ ''.'' @ nl
     @ nl
     @ ''Note: '' @ dquoted ''age_group'' @ '' is not a column but can be derived using:'' @ nl
     @ ''CASE '' @ nl
     @ ''  WHEN age < 30 THEN '' @ quoted ''Young'' @ nl
     @ ''  WHEN age < 60 THEN '' @ quoted ''Middle-aged'' @ nl
     @ ''  ELSE '' @ quoted ''Senior'' @ nl
     @ ''END AS age_group.'' @ nl
     @ nl
     @ ''Convert the following natural language question into a valid SQLite SQL query using this logic if needed.'' @ nl
     @ ''Only return the SQL.'' @ nl
     @ ''Question: '' @ q @ nl
     @ ''SQL:'' @ nl"

text \<open>
  The body of the \<open>try\<close>. The store and the model are outside the repository:
  \<open>read_columns\<close> is the outcome of lines 124 to 126 (the column names, or what was
  raised), \<open>generate_content\<close> the outcome of the model call and of \<open>response.text\<close>
  for a prompt. \<open>state['question']\<close> raises \<open>KeyError\<close> when the key is missing.
\<close>

definition run_llm_sql_try ::
    "(error + string list) \<Rightarrow> (string \<Rightarrow> error + string) \<Rightarrow> graph_state \<Rightarrow> error + graph_state" where
  "run_llm_sql_try read_columns generate_content state =
     (case read_columns of
        Inl e \<Rightarrow> Inl e
      | Inr columns \<Rightarrow>
          (case question state of
             None \<Rightarrow> Inl KeyError
           | Some q \<Rightarrow>
               (case generate_content (prompt columns q) of
                  Inl e \<Rightarrow> Inl e
                | Inr text \<Rightarrow>
                    (let generated_text = strip text;
                         sql_text = extract_sql generated_text
                     in Inr (state\<lparr>sql := Some sql_text\<rparr>)))))"

definition run_llm_sql ::
    "(error + string list) \<Rightarrow> (string \<Rightarrow> error + string) \<Rightarrow> graph_state \<Rightarrow> graph_state" where
  "run_llm_sql read_columns generate_content state =
     (case run_llm_sql_try read_columns generate_content state of
        Inr state' \<Rightarrow> state'
      | Inl e \<Rightarrow> state\<lparr>sql := Some [], status := Some FAILED\<rparr>)"

subsection \<open>\<open>execute_sql\<close>, lines 155 to 162\<close>

text \<open>
  \<open>read_sql\<close> is the outcome of lines 157 to 159 for a statement: the table read, or
  what opening the store, running the statement or closing the store raised.
  \<open>pd.DataFrame()\<close> is the table without columns and rows.
\<close>

definition empty_table :: table where
  "empty_table = ([], [])"

definition execute_sql_try :: "(string \<Rightarrow> error + table) \<Rightarrow> graph_state \<Rightarrow> error + graph_state" where
  "execute_sql_try read_sql state =
     (case sql state of
        None \<Rightarrow> Inl KeyError
      | Some q \<Rightarrow>
          (case read_sql q of
             Inl e \<Rightarrow> Inl e
           | Inr df_result \<Rightarrow> Inr (state\<lparr>result := Some df_result, status := Some OK\<rparr>)))"

definition execute_sql :: "(string \<Rightarrow> error + table) \<Rightarrow> graph_state \<Rightarrow> graph_state" where
  "execute_sql read_sql state =
     (case execute_sql_try read_sql state of
        Inr state' \<Rightarrow> state'
      | Inl e \<Rightarrow> state\<lparr>result := Some empty_table, status := Some FAILED\<rparr>)"

section \<open>The issue summary of app02.py\<close>






section \<open>Notions used in the proofs about the validator\<close>

subsection \<open>What one pass of the loop does to a row\<close>

text \<open>The messages a rule appends: one when its test holds, none otherwise.\<close>

definition msgs :: "bool \<Rightarrow> string \<Rightarrow> string list" where
  "msgs b m = (if b then [m] else [])"

text \<open>The test of line 90 on a balance that is not a text.\<close>

definition bad_balance :: "cell \<Rightarrow> bool" where
  "bad_balance c = (isna c \<or> py_lt0 c = Inr True)"

text \<open>The test of line 102: the threshold is true as a Python value and the balance lies above it.\<close>

definition above_thresh :: "pyfloat option \<Rightarrow> cell \<Rightarrow> bool" where
  "above_thresh bt c = (truthy bt \<and> (\<exists>t. bt = Some t \<and> py_gt c t = Inr True))"

text \<open>Line 85 raises: the row needs the mean and the age column holds a text.\<close>

definition mean_raises :: "row \<Rightarrow> cell list \<Rightarrow> bool" where
  "mean_raises r col = (isna (age r) \<and> list_ex is_text col)"

text \<open>\<open>xs[i]\<close> replaced by \<open>f (xs[i])\<close>.\<close>

definition at_upd :: "nat \<Rightarrow> ('a \<Rightarrow> 'a) \<Rightarrow> 'a list \<Rightarrow> 'a list" where
  "at_upd i f xs = xs[i := f (xs ! i)]"

text \<open>
  The row after its pass, given the id the pass would hand out and the mean of the age
  column at that moment; then the issue texts and the fix texts of the pass.
\<close>

definition repair_row :: "cell \<Rightarrow> pyfloat \<Rightarrow> row \<Rightarrow> row" where
  "repair_row new_id avg r =
     \<lparr>customer_id = (if isna (customer_id r) then new_id else customer_id r),
      name = (if isna (name r) then Str ''Unknown'' else name r),
      surname = (if isna (surname r) then Str ''Unknown'' else surname r),
      gender = (if isna (gender r) then Str ''Not Specified'' else gender r),
      age = (if isna (age r) then cell_of avg else age r),
      region = (if isna (region r) then Str ''Unknown'' else region r),
      job_classification = (if isna (job_classification r) then Str ''Other'' else job_classification r),
      date_joined = (if to_datetime_ok (date_joined r) then date_joined r else Str ''01.Jan.00''),
      balance = (if bad_balance (balance r) then Num 0 else balance r)\<rparr>"

definition row_issue_list :: "pyfloat option \<Rightarrow> row \<Rightarrow> string list" where
  "row_issue_list bt r =
     msgs (isna (customer_id r)) ''Missing customer_id''
     @ msgs (isna (name r)) ''Missing name''
     @ msgs (isna (surname r)) ''Missing surname''
     @ msgs (isna (gender r)) ''Missing gender''
     @ msgs (isna (region r)) ''Missing region''
     @ msgs (isna (job_classification r)) ''Missing job_classification''
     @ msgs (isna (age r)) ''Missing age''
     @ msgs (bad_balance (balance r)) ''Missing or negative balance''
     @ msgs (\<not> to_datetime_ok (date_joined r)) ''Bad date format''
     @ msgs (above_thresh bt (balance r)) ''Outlier in balance''"

definition row_fix_list :: "string \<Rightarrow> pyfloat \<Rightarrow> row \<Rightarrow> string list" where
  "row_fix_list new_id avg r =
     msgs (isna (customer_id r)) (''Auto-generated ID: '' @ new_id)
     @ msgs (isna (name r)) (''Filled name with '' @ quoted ''Unknown'')
     @ msgs (isna (surname r)) (''Filled surname with '' @ quoted ''Unknown'')
     @ msgs (isna (gender r)) (''Filled gender with '' @ quoted ''Not Specified'')
     @ msgs (isna (region r)) (''Filled region with '' @ quoted ''Unknown'')
     @ msgs (isna (job_classification r)) (''Filled job_classification with '' @ quoted ''Other'')
     @ msgs (isna (age r)) (''Filled age with average age '' @ format_1f avg)
     @ msgs (bad_balance (balance r)) ''Filled balance with 0''
     @ msgs (\<not> to_datetime_ok (date_joined r)) ''Filled with default date 01.Jan.00''"

text \<open>The text in a cell that holds one.\<close>

fun text_of :: "cell \<Rightarrow> string" where
  "text_of (Str s) = s"
| "text_of c = []"

subsection \<open>The loop after \<open>k\<close> rows\<close>

text \<open>
  The values of lines 41 to 43 as functions of the frame, and the state of the loop after
  its first \<open>k\<close> passes.
\<close>

definition balance_thresh_of :: "row list \<Rightarrow> pyfloat option" where
  "balance_thresh_of d =
     (if is_numeric_dtype (map balance d) then Some (quantile99 (map balance d)) else None)"

definition ids_of :: "(rat \<Rightarrow> string) \<Rightarrow> row list \<Rightarrow> string list" where
  "ids_of num_str d = map (astype_str num_str) (filter (\<lambda>c. \<not> isna c) (map customer_id d))"

definition init_state :: "(rat \<Rightarrow> string) \<Rightarrow> row list \<Rightarrow> vstate" where
  "init_state num_str d =
     \<lparr>df = d, existing_ids = ids_of num_str d, auto_id_counter = 100001,
      issues = [], fixes = [], row_issues = [], row_fixes = []\<rparr>"

definition after_rows :: "pyfloat option \<Rightarrow> row list \<Rightarrow> nat \<Rightarrow> vstate \<Rightarrow> error + vstate" where
  "after_rows bt d k s0 = for_rows (validate_row bt) (take k (iterrows d)) s0"

text \<open>The id the next pass would hand out.\<close>

definition new_id_of :: "vstate \<Rightarrow> string" where
  "new_id_of s = auto_name (next_free (existing_ids s) (auto_id_counter s))"

text \<open>The state that line 111 returns.\<close>

definition validated :: "vstate \<Rightarrow> graph_state" where
  "validated s =
     \<lparr>df_raw = Some \<lparr>rows = df s, validation_issues = Some (issues s),
                      fix_suggestions = Some (fixes s)\<rparr>,
      df_validated = Some \<lparr>rows = df s, validation_issues = Some (issues s),
                      fix_suggestions = Some (fixes s)\<rparr>,
      question = None, sql = None, result = None, status = Some OK\<rparr>"

text \<open>
  A row on which no pass raises: its balance is not a text, and if its age is absent the
  age column holds no text.
\<close>

definition row_ok :: "row list \<Rightarrow> row \<Rightarrow> bool" where
  "row_ok d r \<longleftrightarrow> \<not> is_text (balance r) \<and> (isna (age r) \<longrightarrow> \<not> list_ex is_text (map age d))"

text \<open>
  The ids in use when row \<open>j\<close> is visited: those of the file, as texts, and those
  given to earlier rows (\<open>d\<close> is the raw frame, \<open>out\<close> the frame with the ids given).
\<close>

definition taken :: "string list \<Rightarrow> row list \<Rightarrow> row list \<Rightarrow> nat \<Rightarrow> string set" where
  "taken ids0 d out j =
     set ids0 \<union> {x. \<exists>i<j. isna (customer_id (d ! i)) \<and> customer_id (out ! i) = Str x}"

text \<open>What holds of the ids after \<open>k\<close> rows.\<close>

definition id_inv :: "string list \<Rightarrow> row list \<Rightarrow> nat \<Rightarrow> vstate \<Rightarrow> bool" where
  "id_inv ids0 d k s \<longleftrightarrow>
     100001 \<le> auto_id_counter s
     \<and> (\<forall>m. 100001 \<le> m \<and> m < auto_id_counter s \<longrightarrow> auto_name m \<in> set (existing_ids s))
     \<and> set (existing_ids s) = taken ids0 d (df s) k
     \<and> (\<forall>j<k. isna (customer_id (d ! j)) \<longrightarrow>
           (\<exists>n. 100001 \<le> n \<and> customer_id (df s ! j) = Str (auto_name n)
              \<and> auto_name n \<notin> taken ids0 d (df s) j
              \<and> (\<forall>m. 100001 \<le> m \<and> m < n \<longrightarrow> auto_name m \<in> taken ids0 d (df s) j)))"

section \<open>Example inputs\<close>

text \<open>The state the application passes to the question pipeline, and a small store.\<close>

definition asked :: "string \<Rightarrow> graph_state" where
  "asked q = \<lparr>df_raw = None, df_validated = None, question = Some q, sql = None,
              result = None, status = None\<rparr>"

definition demo_store :: "string \<Rightarrow> error + table" where
  "demo_store q =
     (if q = ''SELECT 1;'' then Inr ([''1''], [ [Num 1] ])
      else Inl (ExternalError ''execution failed''))"

text \<open>The state the application passes to the validation pipeline: only the raw frame.\<close>

definition raw_state :: "row list \<Rightarrow> graph_state" where
  "raw_state d = \<lparr>df_raw = Some \<lparr>rows = d, validation_issues = None, fix_suggestions = None\<rparr>,
            df_validated = None, question = None, sql = None, result = None, status = None\<rparr>"

text \<open>A text for numeric ids, used in the examples only: the whole part in decimal.\<close>

definition whole_str :: "rat \<Rightarrow> string" where
  "whole_str x = (if x < 0 then ''-'' else []) @ show_nat (nat \<bar>\<lfloor>x\<rfloor>\<bar>)"

text \<open>The rows and the two text columns of the validated frame of a run, if it returned.\<close>

definition rows_of :: "error + graph_state \<Rightarrow> row list option" where
  "rows_of r = (case r of Inl e \<Rightarrow> None
                | Inr g \<Rightarrow> (case df_validated g of None \<Rightarrow> None | Some f \<Rightarrow> Some (rows f)))"

definition issues_of :: "error + graph_state \<Rightarrow> string list option" where
  "issues_of r = (case r of Inl e \<Rightarrow> None
                | Inr g \<Rightarrow> (case df_validated g of None \<Rightarrow> None | Some f \<Rightarrow> validation_issues f))"

definition fixes_of :: "error + graph_state \<Rightarrow> string list option" where
  "fixes_of r = (case r of Inl e \<Rightarrow> None
                | Inr g \<Rightarrow> (case df_validated g of None \<Rightarrow> None | Some f \<Rightarrow> fix_suggestions f))"

text \<open>A second run on the state a first run returned.\<close>

definition revalidate :: "(rat \<Rightarrow> string) \<Rightarrow> error + graph_state \<Rightarrow> error + graph_state" where
  "revalidate num_str r = (case r of Inl e \<Rightarrow> Inl e | Inr g \<Rightarrow> validate_data num_str g)"

text \<open>A row without defects, and the frames of the examples.\<close>

definition example_row :: row where
  "example_row = \<lparr>customer_id = Str ''C1'', name = Str ''Ann'', surname = Str ''Lee'', gender = Str ''F'',
         age = Num 30, region = Str ''North'', job_classification = Str ''Blue Collar'',
         date_joined = Str ''05.Jan.15'', balance = Num 100\<rparr>"

definition ages_example :: "row list" where
  "ages_example =
     [example_row\<lparr>customer_id := NA, age := NA\<rparr>,
      example_row\<lparr>customer_id := Str ''AUTO-100001'', age := Num 31\<rparr>,
      example_row\<lparr>customer_id := NA, date_joined := NA, balance := Num (- 5)\<rparr>]"

definition late_outlier_example :: "row list" where
  "late_outlier_example = [example_row\<lparr>balance := NA\<rparr>, example_row]"

definition mostly_zero :: "row list" where
  "mostly_zero =
     replicate 100 (example_row\<lparr>balance := Num 0\<rparr>) @ [example_row\<lparr>balance := Num 5\<rparr>]"

section \<open>Properties of the issue summary\<close>










section \<open>Properties of the extraction\<close>

lemma takeWhile_until: "c \<notin> set b \<Longrightarrow> takeWhile (\<lambda>x. x \<noteq> c) (b @ c # p) = b"
  by (induction b) auto

lemma until_semi_None_iff: "until_semi s = None \<longleftrightarrow> CHR '';'' \<notin> set s"
  by (induction s) auto

lemma until_semi_SomeD:
  "until_semi s = Some b \<Longrightarrow> \<exists>post. s = b @ '';'' @ post \<and> CHR '';'' \<notin> set b"
proof (induction s arbitrary: b)
  case Nil
  then show ?case by simp
next
  case (Cons c cs)
  show ?case
  proof (cases "c = CHR '';''")
    case True
    with Cons.prems show ?thesis by auto
  next
    case False
    with Cons.prems obtain b' where b': "until_semi cs = Some b'" and b: "b = c # b'"
      by auto
    from Cons.IH [OF b'] obtain post where "cs = b' @ '';'' @ post" "CHR '';'' \<notin> set b'"
      by blast
    with False b show ?thesis by auto
  qed
qed

lemma starts_select_length: "starts_select s \<Longrightarrow> 6 \<le> length s"
proof -
  assume "starts_select s"
  then have "length (lower (take 6 s)) = length ''select''"
    unfolding starts_select_def by simp
  then show ?thesis by (simp add: lower_def)
qed

lemma starts_select_append:
  "lower kw = ''select'' \<Longrightarrow> starts_select (kw @ rest)"
proof -
  assume h: "lower kw = ''select''"
  then have "length (lower kw) = length ''select''" by simp
  then have "length kw = 6" by (simp add: lower_def)
  with h show ?thesis unfolding starts_select_def by simp
qed

lemma match_here_SomeD:
  assumes "match_here s = Some g"
  shows "\<exists>kw c body post. s = kw @ c # body @ '';'' @ post \<and> lower kw = ''select''
           \<and> CHR '';'' \<notin> set body \<and> g = kw @ c # body"
proof -
  from assms have st: "starts_select s"
    unfolding match_here_def by (simp split: if_splits)
  with assms obtain c cs m where d: "drop 6 s = c # cs" and m: "until_semi cs = Some m"
    and g: "g = take 6 s @ c # m"
    unfolding match_here_def by (auto split: list.splits)
  from until_semi_SomeD [OF m] obtain post where cs: "cs = m @ '';'' @ post"
    and nm: "CHR '';'' \<notin> set m" by blast
  have "s = take 6 s @ drop 6 s" by simp
  with d cs have "s = take 6 s @ c # m @ '';'' @ post" by simp
  moreover from st have "lower (take 6 s) = ''select''" unfolding starts_select_def .
  ultimately show ?thesis using nm g by blast
qed

lemma match_here_None_select:
  assumes "match_here s = None" "starts_select s"
  shows "CHR '';'' \<notin> set (drop 7 s)"
proof (cases "drop 6 s")
  case Nil
  then have "drop 7 s = drop 1 (drop 6 s)" by simp
  with Nil show ?thesis by simp
next
  case (Cons c cs)
  with assms have "until_semi cs = None"
    unfolding match_here_def by simp
  then have "CHR '';'' \<notin> set cs" by (simp add: until_semi_None_iff)
  moreover have "drop 7 s = drop 1 (drop 6 s)" by simp
  ultimately show ?thesis using Cons by simp
qed

lemma semi_in_drop:
  assumes "lower kw = ''select''"
  shows "CHR '';'' \<in> set (drop 6 (pre @ kw @ c # body @ '';'' @ post))"
proof -
  from assms have "length (lower kw) = length ''select''" by simp
  then have len: "length kw = 6" by (simp add: lower_def)
  have "pre @ kw @ c # body @ '';'' @ post = (pre @ kw) @ (c # body @ '';'' @ post)" by simp
  then have "drop 6 (pre @ kw @ c # body @ '';'' @ post)
      = drop 6 (pre @ kw) @ drop (6 - length (pre @ kw)) (c # body @ '';'' @ post)"
    by (simp only: drop_append)
  also have "drop (6 - length (pre @ kw)) (c # body @ '';'' @ post) = c # body @ '';'' @ post"
    using len by simp
  finally show ?thesis by simp
qed

lemma re_search_SomeD:
  "re_search reply = Some g \<Longrightarrow>
   \<exists>pre kw c body post. reply = pre @ kw @ c # body @ '';'' @ post \<and> lower kw = ''select''
      \<and> CHR '';'' \<notin> set body \<and> (\<forall>p<length pre. \<not> starts_select (drop p reply))
      \<and> g = kw @ c # body"
proof (induction reply)
  case Nil
  then show ?case by simp
next
  case (Cons a cs)
  show ?case
  proof (cases "match_here (a # cs)")
    case (Some g')
    with Cons.prems have "g' = g" by simp
    with match_here_SomeD [OF Some] obtain kw c body post where
      "a # cs = [] @ kw @ c # body @ '';'' @ post" "lower kw = ''select''"
      "CHR '';'' \<notin> set body" "g = kw @ c # body" by auto
    then show ?thesis
      by (intro exI [of _ "[]"] exI [of _ kw] exI [of _ c] exI [of _ body] exI [of _ post]) simp
  next
    case None
    with Cons.prems have "re_search cs = Some g" by simp
    from Cons.IH [OF this] obtain pre kw c body post where
      cs: "cs = pre @ kw @ c # body @ '';'' @ post" and kw: "lower kw = ''select''"
      and body: "CHR '';'' \<notin> set body"
      and first: "\<forall>p<length pre. \<not> starts_select (drop p cs)"
      and g: "g = kw @ c # body" by blast
    have no0: "\<not> starts_select (a # cs)"
    proof
      assume "starts_select (a # cs)"
      from match_here_None_select [OF None this] have "CHR '';'' \<notin> set (drop 6 cs)" by simp
      with semi_in_drop [OF kw, of pre c body post] cs show False by simp
    qed
    have "\<forall>p<length (a # pre). \<not> starts_select (drop p (a # cs))"
    proof (intro allI impI)
      fix p assume p: "p < length (a # pre)"
      show "\<not> starts_select (drop p (a # cs))"
      proof (cases p)
        case 0
        with no0 show ?thesis by simp
      next
        case (Suc p')
        with p first show ?thesis by simp
      qed
    qed
    moreover from cs have "a # cs = (a # pre) @ kw @ c # body @ '';'' @ post" by simp
    ultimately show ?thesis using kw body g by blast
  qed
qed

lemma match_here_decomp:
  assumes "lower kw = ''select''"
  shows "match_here (kw @ c # body @ '';'' @ post) \<noteq> None"
proof -
  from assms have "length (lower kw) = length ''select''" by simp
  then have len: "length kw = 6" by (simp add: lower_def)
  have "until_semi (body @ '';'' @ post) \<noteq> None"
    by (simp add: until_semi_None_iff)
  with starts_select_append [OF assms, of "c # body @ '';'' @ post"] len
  show ?thesis unfolding match_here_def by auto
qed

lemma re_search_decomp:
  "lower kw = ''select'' \<Longrightarrow> re_search (pre @ kw @ c # body @ '';'' @ post) \<noteq> None"
proof (induction pre)
  case Nil
  from Nil have "length (lower kw) = length ''select''" by simp
  then have "length kw = 6" by (simp add: lower_def)
  then obtain k ks where kw: "kw = k # ks" by (cases kw) auto
  from match_here_decomp [OF Nil, of c body post] kw show ?case by auto
next
  case (Cons a pre)
  then show ?case by (auto split: option.splits)
qed

lemma extract_sql_no_select:
  assumes "\<not> py_in ''select'' (lower reply)"
  shows "extract_sql reply = []"
proof (cases "re_search reply")
  case None
  then show ?thesis by (simp add: extract_sql_def)
next
  case (Some g)
  from re_search_SomeD [OF Some] obtain pre kw c body post where
    "reply = pre @ kw @ c # body @ '';'' @ post" "lower kw = ''select''" by blast
  then have "lower reply = lower pre @ ''select'' @ lower (c # body @ '';'' @ post)"
    by (simp add: lower_def)
  then have "sublist ''select'' (lower reply)"
    unfolding sublist_def by blast
  with assms show ?thesis by (simp add: py_in_def)
qed

text \<open>
  Claim C6, as stated, at the reply \<open>SELECT;\<close>: the reply holds a substring that starts
  at the keyword and ends at the next semicolon, which the reading of the specification
  returns, and the extraction returns the empty text, because the pattern asks for at
  least one character between the keyword and the closing semicolon.
\<close>

theorem extract_sql_counterexample:
  "spec_extract_sql ''SELECT;'' = ''SELECT;'' \<and> extract_sql ''SELECT;'' = []"
  by code_simp

lemma extract_sql_cases:
  "(reply = pre @ kw @ c # body @ '';'' @ post \<and> lower kw = ''select''
      \<and> CHR '';'' \<notin> set body \<and> (\<forall>p<length pre. \<not> starts_select (drop p reply))
    \<longrightarrow> extract_sql reply = kw @ c # body @ '';'')
   \<and> ((\<forall>pre kw c body post. reply = pre @ kw @ c # body @ '';'' @ post \<longrightarrow> lower kw \<noteq> ''select'')
    \<longrightarrow> extract_sql reply = [])
   \<and> extract_sql ''Sure! SELECT * FROM customers WHERE age < 30; Let me know if that helps.''
       = ''SELECT * FROM customers WHERE age < 30;''"
proof (intro conjI impI)
  assume h: "reply = pre @ kw @ c # body @ '';'' @ post \<and> lower kw = ''select''
      \<and> CHR '';'' \<notin> set body \<and> (\<forall>p<length pre. \<not> starts_select (drop p reply))"
  then have tx: "reply = pre @ kw @ c # body @ '';'' @ post" and kw: "lower kw = ''select''"
    and body: "CHR '';'' \<notin> set body"
    and first: "\<forall>p<length pre. \<not> starts_select (drop p reply)" by blast+
  from re_search_decomp [OF kw, of pre c body post] tx obtain g where g: "re_search reply = Some g"
    by auto
  from re_search_SomeD [OF g] obtain pre' kw' c' body' post' where
    tx': "reply = pre' @ kw' @ c' # body' @ '';'' @ post'" and kw': "lower kw' = ''select''"
    and body': "CHR '';'' \<notin> set body'"
    and first': "\<forall>p<length pre'. \<not> starts_select (drop p reply)"
    and g': "g = kw' @ c' # body'" by blast
  from kw have "length (lower kw) = length ''select''" by simp
  then have len: "length kw = 6" by (simp add: lower_def)
  from kw' have "length (lower kw') = length ''select''" by simp
  then have len': "length kw' = 6" by (simp add: lower_def)
  have s1: "starts_select (drop (length pre) reply)"
    using tx starts_select_append [OF kw] by simp
  have s2: "starts_select (drop (length pre') reply)"
    using tx' starts_select_append [OF kw'] by simp
  have "length pre = length pre'"
  proof (rule ccontr)
    assume "length pre \<noteq> length pre'"
    then consider "length pre < length pre'" | "length pre' < length pre" by linarith
    then show False
    proof cases
      case 1
      with first' s1 show False by blast
    next
      case 2
      with first s2 show False by blast
    qed
  qed
  with tx tx' have pre: "pre = pre'" and rest: "kw @ c # body @ '';'' @ post = kw' @ c' # body' @ '';'' @ post'"
    by (metis append_eq_append_conv)+
  from rest len len' have kweq: "kw = kw'" and rest2: "c # body @ '';'' @ post = c' # body' @ '';'' @ post'"
    by (metis append_eq_append_conv)+
  then have c: "c = c'" and rest3: "body @ '';'' @ post = body' @ '';'' @ post'" by simp_all
  have "body = body'"
  proof -
    from rest3 have "takeWhile (\<lambda>x. x \<noteq> CHR '';'') (body @ '';'' @ post)
        = takeWhile (\<lambda>x. x \<noteq> CHR '';'') (body' @ '';'' @ post')" by simp
    moreover have "takeWhile (\<lambda>x. x \<noteq> CHR '';'') (body @ '';'' @ post) = body"
      using body by (simp add: takeWhile_until)
    moreover have "takeWhile (\<lambda>x. x \<noteq> CHR '';'') (body' @ '';'' @ post') = body'"
      using body' by (simp add: takeWhile_until)
    ultimately show ?thesis by simp
  qed
  with g g' kweq c show "extract_sql reply = kw @ c # body @ '';''"
    by (simp add: extract_sql_def)
next
  assume h: "\<forall>pre kw c body post. reply = pre @ kw @ c # body @ '';'' @ post \<longrightarrow> lower kw \<noteq> ''select''"
  show "extract_sql reply = []"
  proof (cases "re_search reply")
    case None
    then show ?thesis by (simp add: extract_sql_def)
  next
    case (Some g)
    from re_search_SomeD [OF Some] h show ?thesis by blast
  qed
next
  show "extract_sql ''Sure! SELECT * FROM customers WHERE age < 30; Let me know if that helps.''
       = ''SELECT * FROM customers WHERE age < 30;''"
    by code_simp
qed



text \<open>
  Claim C6, amended: for every reply, the extraction returns the text from the first
  \<open>SELECT\<close> in any case (no occurrence starts further left) through the first semicolon that
  stands at least one character after the keyword, that semicolon included; it returns the
  empty text when the reply has no \<open>SELECT\<close> followed by at least one character and then
  a semicolon. For the reply of the specification the result is
  \<open>SELECT * FROM customers WHERE age < 30;\<close>.
\<close>

theorem extract_sql_first_select:
  "(reply = pre @ kw @ c # body @ '';'' @ post \<and> lower kw = ''select''
      \<and> CHR '';'' \<notin> set body \<and> (\<forall>p<length pre. \<not> starts_select (drop p reply))
    \<longrightarrow> extract_sql reply = kw @ c # body @ '';'')
   \<and> (extract_sql reply = [] \<longleftrightarrow>
        (\<forall>pre kw c body post. reply = pre @ kw @ c # body @ '';'' @ post \<longrightarrow> lower kw \<noteq> ''select''))
   \<and> (extract_sql reply \<noteq> [] \<longrightarrow>
        (\<exists>pre kw c body post. reply = pre @ kw @ c # body @ '';'' @ post \<and> lower kw = ''select''
           \<and> CHR '';'' \<notin> set body \<and> (\<forall>p<length pre. \<not> starts_select (drop p reply))
           \<and> extract_sql reply = kw @ c # body @ '';''))
   \<and> extract_sql ''Sure! SELECT * FROM customers WHERE age < 30; Let me know if that helps.''
       = ''SELECT * FROM customers WHERE age < 30;''"
proof -
  note cases = extract_sql_cases [of reply pre kw c body post]
  have first: "reply = pre @ kw @ c # body @ '';'' @ post \<and> lower kw = ''select''
      \<and> CHR '';'' \<notin> set body \<and> (\<forall>p<length pre. \<not> starts_select (drop p reply))
    \<longrightarrow> extract_sql reply = kw @ c # body @ '';''"
    using cases by (rule conjunct1)
  have none: "(\<forall>pre kw c body post. reply = pre @ kw @ c # body @ '';'' @ post \<longrightarrow> lower kw \<noteq> ''select'')
      \<longrightarrow> extract_sql reply = []"
    using cases by blast
  have found: "extract_sql reply \<noteq> [] \<longrightarrow>
        (\<exists>pre kw c body post. reply = pre @ kw @ c # body @ '';'' @ post \<and> lower kw = ''select''
           \<and> CHR '';'' \<notin> set body \<and> (\<forall>p<length pre. \<not> starts_select (drop p reply))
           \<and> extract_sql reply = kw @ c # body @ '';'')"
  proof
    assume "extract_sql reply \<noteq> []"
    then obtain g where g: "re_search reply = Some g"
      by (cases "re_search reply") (simp_all add: extract_sql_def)
    from re_search_SomeD [OF g] g show "\<exists>pre kw c body post.
        reply = pre @ kw @ c # body @ '';'' @ post \<and> lower kw = ''select''
           \<and> CHR '';'' \<notin> set body \<and> (\<forall>p<length pre. \<not> starts_select (drop p reply))
           \<and> extract_sql reply = kw @ c # body @ '';''"
      by (simp add: extract_sql_def)
  qed
  have only: "extract_sql reply = [] \<longrightarrow>
      (\<forall>pre kw c body post. reply = pre @ kw @ c # body @ '';'' @ post \<longrightarrow> lower kw \<noteq> ''select'')"
  proof (intro impI allI)
    fix pre' kw' :: string and c' :: char and body' post' :: string
    assume e: "extract_sql reply = []" and d: "reply = pre' @ kw' @ c' # body' @ '';'' @ post'"
    show "lower kw' \<noteq> ''select''"
    proof
      assume "lower kw' = ''select''"
      from re_search_decomp [OF this, of pre' c' body' post'] d
      obtain g where "re_search reply = Some g" by auto
      with e show False by (simp add: extract_sql_def)
    qed
  qed
  have example: "extract_sql ''Sure! SELECT * FROM customers WHERE age < 30; Let me know if that helps.''
       = ''SELECT * FROM customers WHERE age < 30;''"
    using cases by (rule conjunct2 [THEN conjunct2])
  from none only have iff: "extract_sql reply = [] \<longleftrightarrow>
        (\<forall>pre kw c body post. reply = pre @ kw @ c # body @ '';'' @ post \<longrightarrow> lower kw \<noteq> ''select'')"
    by blast
  show ?thesis by (intro conjI) (rule first, rule iff, rule found, rule example)
qed

text \<open>
  The theorem at a reply with a statement and at a reply without one.
\<close>

theorem extract_sql_first_select_witness:
  "extract_sql ''ok: select 1; bye'' = ''select 1;'' \<and> extract_sql ''no statement here'' = []"
proof -
  have a: "''ok: select 1; bye'' = ''ok: '' @ ''select'' @ CHR '' '' # ''1'' @ '';'' @ '' bye''
      \<and> lower ''select'' = ''select'' \<and> CHR '';'' \<notin> set ''1''
      \<and> (\<forall>p<length ''ok: ''. \<not> starts_select (drop p ''ok: select 1; bye''))"
    by (simp add: lower_def lower_chr_def starts_select_def All_less_Suc eval_nat_numeral)
  have b: "\<forall>pre kw c body post.
      ''no statement here'' = pre @ kw @ c # body @ '';'' @ post \<longrightarrow> lower kw \<noteq> ''select''"
  proof (intro allI impI)
    fix pre kw :: string and c :: char and body post :: string
    assume "''no statement here'' = pre @ kw @ c # body @ '';'' @ post"
    then have "set ''no statement here'' = set (pre @ kw @ c # body @ '';'' @ post)" by simp
    then have "CHR '';'' \<in> set ''no statement here''" by simp
    then show "lower kw \<noteq> ''select''" by simp
  qed
  from extract_sql_first_select
    [of "''ok: select 1; bye''" "''ok: ''" "''select''" "CHR '' ''" "''1''" "'' bye''"] a
  have "extract_sql ''ok: select 1; bye'' = ''select'' @ CHR '' '' # ''1'' @ '';''" by blast
  moreover from extract_sql_first_select [of "''no statement here''"] b
  have "extract_sql ''no statement here'' = []" by blast
  ultimately show ?thesis by simp
qed

section \<open>Properties of the question pipeline\<close>

lemma strip_sublist: "sublist (strip s) s"
proof -
  define t where "t = dropWhile is_space s"
  have "rev (takeWhile is_space (rev t) @ dropWhile is_space (rev t)) = t"
    by (simp only: takeWhile_dropWhile_id rev_rev_ident)
  then have "rev (dropWhile is_space (rev t)) @ rev (takeWhile is_space (rev t)) = t"
    by (simp only: rev_append)
  then have "t = strip s @ rev (takeWhile is_space (rev t))"
    by (simp add: strip_def t_def)
  moreover have "s = takeWhile is_space s @ t" by (simp add: t_def)
  ultimately have "s = takeWhile is_space s @ strip s @ rev (takeWhile is_space (rev t))"
    by simp
  then show ?thesis unfolding sublist_def by blast
qed

lemma lower_sublist: "sublist a b \<Longrightarrow> sublist (lower a) (lower b)"
proof -
  assume "sublist a b"
  then obtain ps ss where "b = ps @ a @ ss" unfolding sublist_def by blast
  then have "lower b = lower ps @ lower a @ lower ss" by (simp add: lower_def)
  then show ?thesis unfolding sublist_def by blast
qed

lemma extract_sql_strip_no_select:
  assumes "\<not> py_in ''select'' (lower reply)"
  shows "extract_sql (strip reply) = []"
proof -
  have "\<not> py_in ''select'' (lower (strip reply))"
  proof
    assume "py_in ''select'' (lower (strip reply))"
    then have "sublist ''select'' (lower (strip reply))" by (simp add: py_in_def)
    moreover have "sublist (lower (strip reply)) (lower reply)"
      by (rule lower_sublist) (rule strip_sublist)
    ultimately have "sublist ''select'' (lower reply)"
      by (rule sublist_order.order.trans)
    with assms show False by (simp add: py_in_def)
  qed
  then show ?thesis by (rule extract_sql_no_select)
qed

text \<open>
  Claim C7, as stated, from the state the application passes (only the question): a
  reply without \<open>SELECT\<close> gives the empty statement and leaves the status unset, not
  \<open>FAILED\<close>; a reply with a statement gives that statement and leaves the status unset,
  not \<open>OK\<close>.
\<close>

theorem run_llm_sql_counterexample:
  "\<not> py_in ''select'' (lower ''I cannot answer that.'')
   \<and> sql (run_llm_sql (Inr [''age'']) (\<lambda>p. Inr ''I cannot answer that.'') (asked ''How old?'')) = Some []
   \<and> status (run_llm_sql (Inr [''age'']) (\<lambda>p. Inr ''I cannot answer that.'') (asked ''How old?'')) \<noteq> Some FAILED
   \<and> sql (run_llm_sql (Inr [''age'']) (\<lambda>p. Inr ''SELECT age FROM customers;'') (asked ''How old?''))
        = Some ''SELECT age FROM customers;''
   \<and> status (run_llm_sql (Inr [''age'']) (\<lambda>p. Inr ''SELECT age FROM customers;'') (asked ''How old?'')) \<noteq> Some OK"
  by code_simp

text \<open>
  Claim C7, amended: \<open>run_llm_sql\<close> never raises. When reading the columns, reading
  the question or the model call raises, it returns the state with the empty statement
  and status \<open>FAILED\<close>. Otherwise it returns the state with the statement extracted from
  the stripped reply, which is empty for a reply without \<open>SELECT\<close>, and leaves the
  status as it came in: the stage itself sets neither \<open>OK\<close> nor, for an empty
  extraction, \<open>FAILED\<close>.
\<close>

theorem run_llm_sql_outcome:
  "((read_columns = Inl e \<or> question state = None
       \<or> (read_columns = Inr columns \<and> question state = Some q
            \<and> generate_content (prompt columns q) = Inl e))
     \<longrightarrow> run_llm_sql read_columns generate_content state
           = state\<lparr>sql := Some [], status := Some FAILED\<rparr>)
   \<and> (read_columns = Inr columns \<and> question state = Some q
        \<and> generate_content (prompt columns q) = Inr reply
     \<longrightarrow> run_llm_sql read_columns generate_content state
           = state\<lparr>sql := Some (extract_sql (strip reply))\<rparr>
         \<and> status (run_llm_sql read_columns generate_content state) = status state
         \<and> (\<not> py_in ''select'' (lower reply)
              \<longrightarrow> sql (run_llm_sql read_columns generate_content state) = Some []))"
proof (intro conjI impI)
  assume "read_columns = Inl e \<or> question state = None
       \<or> (read_columns = Inr columns \<and> question state = Some q
            \<and> generate_content (prompt columns q) = Inl e)"
  then show "run_llm_sql read_columns generate_content state
           = state\<lparr>sql := Some [], status := Some FAILED\<rparr>"
    unfolding run_llm_sql_def run_llm_sql_try_def
    by (auto split: sum.splits option.splits)
next
  assume h: "read_columns = Inr columns \<and> question state = Some q
        \<and> generate_content (prompt columns q) = Inr reply"
  then show r: "run_llm_sql read_columns generate_content state
           = state\<lparr>sql := Some (extract_sql (strip reply))\<rparr>"
    unfolding run_llm_sql_def run_llm_sql_try_def by (simp add: Let_def)
  then show "status (run_llm_sql read_columns generate_content state) = status state"
    by simp
  assume "\<not> py_in ''select'' (lower reply)"
  then have "extract_sql (strip reply) = []" by (rule extract_sql_strip_no_select)
  with r show "sql (run_llm_sql read_columns generate_content state) = Some []"
    by simp
qed

text \<open>
  The theorem at a model call that raises and at a reply without a statement.
\<close>

theorem run_llm_sql_outcome_witness:
  "run_llm_sql (Inr [''age'']) (\<lambda>p. Inl (ExternalError ''quota'')) (asked ''How old?'')
     = (asked ''How old?'')\<lparr>sql := Some [], status := Some FAILED\<rparr>
   \<and> sql (run_llm_sql (Inr [''age'']) (\<lambda>p. Inr ''Nothing to run.'') (asked ''How old?'')) = Some []
   \<and> status (run_llm_sql (Inr [''age'']) (\<lambda>p. Inr ''Nothing to run.'') (asked ''How old?''))
       = status (asked ''How old?'')"
proof -
  have q: "question (asked ''How old?'') = Some ''How old?''" by (simp add: asked_def)
  have n: "\<not> py_in ''select'' (lower ''Nothing to run.'')" by code_simp
  have c: "Inr [''age''] = (Inr [''age''] :: error + string list)" by simp
  have g1: "(\<lambda>p. Inl (ExternalError ''quota'') :: error + string) (prompt [''age''] ''How old?'')
      = Inl (ExternalError ''quota'')" by simp
  have g2: "(\<lambda>p. Inr ''Nothing to run.'' :: error + string) (prompt [''age''] ''How old?'')
      = Inr ''Nothing to run.''" by simp
  from run_llm_sql_outcome
      [of "Inr [''age'']" "ExternalError ''quota''" "asked ''How old?''" "[''age'']" "''How old?''"
          "\<lambda>p. Inl (ExternalError ''quota'')"] q c g1
  have "run_llm_sql (Inr [''age'']) (\<lambda>p. Inl (ExternalError ''quota'')) (asked ''How old?'')
     = (asked ''How old?'')\<lparr>sql := Some [], status := Some FAILED\<rparr>"
    by blast
  moreover from run_llm_sql_outcome
      [of "Inr [''age'']" _ "asked ''How old?''" "[''age'']" "''How old?''"
          "\<lambda>p. Inr ''Nothing to run.''" "''Nothing to run.''"] q n c g2
  have "sql (run_llm_sql (Inr [''age'']) (\<lambda>p. Inr ''Nothing to run.'') (asked ''How old?'')) = Some []
    \<and> status (run_llm_sql (Inr [''age'']) (\<lambda>p. Inr ''Nothing to run.'') (asked ''How old?''))
       = status (asked ''How old?'')"
    by blast
  ultimately show ?thesis by blast
qed

text \<open>
  Claim C8: \<open>execute_sql\<close> never raises. When the store returns a table for the
  statement, the state holds that table and status \<open>OK\<close>; when the statement is missing
  or the store raises on it (for the empty text, a syntax error or an error while the
  query runs), the state holds the empty table and status \<open>FAILED\<close>. One of the two
  is always the case.
\<close>

theorem execute_sql_outcome:
  "(sql state = Some q \<and> read_sql q = Inr t
      \<longrightarrow> execute_sql read_sql state = state\<lparr>result := Some t, status := Some OK\<rparr>)
   \<and> (sql state = None \<or> (sql state = Some q \<and> read_sql q = Inl e)
      \<longrightarrow> execute_sql read_sql state = state\<lparr>result := Some empty_table, status := Some FAILED\<rparr>)
   \<and> (sql state = Some [] \<and> read_sql [] = Inl e
      \<longrightarrow> result (execute_sql read_sql state) = Some empty_table
          \<and> status (execute_sql read_sql state) = Some FAILED)
   \<and> ((\<exists>q t. sql state = Some q \<and> read_sql q = Inr t
          \<and> result (execute_sql read_sql state) = Some t
          \<and> status (execute_sql read_sql state) = Some OK)
       \<or> (result (execute_sql read_sql state) = Some empty_table
          \<and> status (execute_sql read_sql state) = Some FAILED))"
  unfolding execute_sql_def execute_sql_try_def
  by (auto split: sum.splits option.splits)

text \<open>
  The theorem at a statement the store answers and at the empty statement.
\<close>

theorem execute_sql_outcome_witness:
  "execute_sql demo_store ((asked ''one?'')\<lparr>sql := Some ''SELECT 1;''\<rparr>)
     = (asked ''one?'')\<lparr>sql := Some ''SELECT 1;'', result := Some ([''1''], [ [Num 1] ]), status := Some OK\<rparr>
   \<and> execute_sql demo_store ((asked ''one?'')\<lparr>sql := Some []\<rparr>)
     = (asked ''one?'')\<lparr>sql := Some [], result := Some empty_table, status := Some FAILED\<rparr>"
proof -
  have a: "sql ((asked ''one?'')\<lparr>sql := Some ''SELECT 1;''\<rparr>) = Some ''SELECT 1;''
           \<and> demo_store ''SELECT 1;'' = Inr ([''1''], [ [Num 1] ])"
    by (simp add: demo_store_def)
  have b: "sql ((asked ''one?'')\<lparr>sql := Some []\<rparr>) = Some []
           \<and> demo_store [] = Inl (ExternalError ''execution failed'')"
    by (simp add: demo_store_def)
  from execute_sql_outcome
    [of "(asked ''one?'')\<lparr>sql := Some ''SELECT 1;''\<rparr>" "''SELECT 1;''" demo_store "([''1''], [ [Num 1] ])"] a
  have "execute_sql demo_store ((asked ''one?'')\<lparr>sql := Some ''SELECT 1;''\<rparr>)
     = (asked ''one?'')\<lparr>sql := Some ''SELECT 1;'', result := Some ([''1''], [ [Num 1] ]), status := Some OK\<rparr>"
    by simp
  moreover from execute_sql_outcome
    [of "(asked ''one?'')\<lparr>sql := Some []\<rparr>" "[]" demo_store _ "ExternalError ''execution failed''"] b
  have "execute_sql demo_store ((asked ''one?'')\<lparr>sql := Some []\<rparr>)
     = (asked ''one?'')\<lparr>sql := Some [], result := Some empty_table, status := Some FAILED\<rparr>"
    by simp
  ultimately show ?thesis by simp
qed

section \<open>One pass of the loop in closed form\<close>

text \<open>
  Each rule as one chain of record updates, in which the state occurs once; the closed
  form of the whole pass follows by rewriting.
\<close>

lemma at_upd_at_upd: "at_upd i f (at_upd i g xs) = at_upd i (\<lambda>x. f (g x)) xs"
  unfolding at_upd_def by (cases "i < length xs") (simp_all add: list_update_beyond)

lemma rule_customer_id_eq:
  "rule_customer_id i row s =
     row_fixes_update (\<lambda>l. l @ msgs (isna (customer_id row))
          (''Auto-generated ID: '' @ auto_name (next_free (existing_ids s) (auto_id_counter s))))
      (row_issues_update (\<lambda>l. l @ msgs (isna (customer_id row)) ''Missing customer_id'')
        (auto_id_counter_update (\<lambda>c. if isna (customer_id row)
             then next_free (existing_ids s) (auto_id_counter s) + 1 else c)
          (existing_ids_update (\<lambda>l. if isna (customer_id row)
               then auto_name (next_free (existing_ids s) (auto_id_counter s)) # l else l)
            (df_update (at_upd i (\<lambda>r. r\<lparr>customer_id := (if isna (customer_id row)
               then Str (auto_name (next_free (existing_ids s) (auto_id_counter s)))
               else customer_id r)\<rparr>)) s))))"
  by (cases s; cases "isna (customer_id row)")
     (simp_all add: rule_customer_id_def msgs_def at_upd_def Let_def)

lemma rule_name_eq:
  "rule_name i row s =
     row_fixes_update (\<lambda>l. l @ msgs (isna (name row)) (''Filled name with '' @ quoted ''Unknown''))
      (row_issues_update (\<lambda>l. l @ msgs (isna (name row)) ''Missing name'')
        (df_update (at_upd i (\<lambda>r. r\<lparr>name := (if isna (name row) then Str ''Unknown'' else name r)\<rparr>)) s))"
  by (cases s; cases "isna (name row)") (simp_all add: rule_name_def msgs_def at_upd_def)

lemma rule_surname_eq:
  "rule_surname i row s =
     row_fixes_update (\<lambda>l. l @ msgs (isna (surname row)) (''Filled surname with '' @ quoted ''Unknown''))
      (row_issues_update (\<lambda>l. l @ msgs (isna (surname row)) ''Missing surname'')
        (df_update (at_upd i (\<lambda>r. r\<lparr>surname := (if isna (surname row) then Str ''Unknown'' else surname r)\<rparr>)) s))"
  by (cases s; cases "isna (surname row)") (simp_all add: rule_surname_def msgs_def at_upd_def)

lemma rule_gender_eq:
  "rule_gender i row s =
     row_fixes_update (\<lambda>l. l @ msgs (isna (gender row)) (''Filled gender with '' @ quoted ''Not Specified''))
      (row_issues_update (\<lambda>l. l @ msgs (isna (gender row)) ''Missing gender'')
        (df_update (at_upd i (\<lambda>r. r\<lparr>gender := (if isna (gender row) then Str ''Not Specified'' else gender r)\<rparr>)) s))"
  by (cases s; cases "isna (gender row)") (simp_all add: rule_gender_def msgs_def at_upd_def)

lemma rule_region_eq:
  "rule_region i row s =
     row_fixes_update (\<lambda>l. l @ msgs (isna (region row)) (''Filled region with '' @ quoted ''Unknown''))
      (row_issues_update (\<lambda>l. l @ msgs (isna (region row)) ''Missing region'')
        (df_update (at_upd i (\<lambda>r. r\<lparr>region := (if isna (region row) then Str ''Unknown'' else region r)\<rparr>)) s))"
  by (cases s; cases "isna (region row)") (simp_all add: rule_region_def msgs_def at_upd_def)

lemma rule_job_classification_eq:
  "rule_job_classification i row s =
     row_fixes_update (\<lambda>l. l @ msgs (isna (job_classification row))
          (''Filled job_classification with '' @ quoted ''Other''))
      (row_issues_update (\<lambda>l. l @ msgs (isna (job_classification row)) ''Missing job_classification'')
        (df_update (at_upd i (\<lambda>r. r\<lparr>job_classification :=
             (if isna (job_classification row) then Str ''Other'' else job_classification r)\<rparr>)) s))"
  by (cases s; cases "isna (job_classification row)")
     (simp_all add: rule_job_classification_def msgs_def at_upd_def)

lemma rule_age_eq:
  "rule_age i row s =
     (if mean_raises row (map age (df s)) then Inl TypeError
      else Inr (row_fixes_update (\<lambda>l. l @ msgs (isna (age row))
                     (''Filled age with average age '' @ format_1f (mean_val (map age (df s)))))
                 (row_issues_update (\<lambda>l. l @ msgs (isna (age row)) ''Missing age'')
                   (df_update (at_upd i (\<lambda>r. r\<lparr>age := (if isna (age row)
                        then cell_of (mean_val (map age (df s))) else age r)\<rparr>)) s))))"
  by (cases s; cases "isna (age row)")
     (simp_all add: rule_age_def msgs_def series_mean_def at_upd_def mean_raises_def)

lemma rule_balance_eq:
  "rule_balance i row s =
     (if is_text (balance row) then Inl TypeError
      else Inr (row_fixes_update (\<lambda>l. l @ msgs (bad_balance (balance row)) ''Filled balance with 0'')
                 (row_issues_update (\<lambda>l. l @ msgs (bad_balance (balance row)) ''Missing or negative balance'')
                   (df_update (at_upd i (\<lambda>r. r\<lparr>balance :=
                        (if bad_balance (balance row) then Num 0 else balance r)\<rparr>)) s))))"
  by (cases s; cases "balance row")
     (simp_all add: rule_balance_def msgs_def bad_balance_def isna_def at_upd_def)

lemma rule_date_joined_eq:
  "rule_date_joined i row s =
     row_fixes_update (\<lambda>l. l @ msgs (\<not> to_datetime_ok (date_joined row))
              ''Filled with default date 01.Jan.00'')
      (row_issues_update (\<lambda>l. l @ msgs (\<not> to_datetime_ok (date_joined row)) ''Bad date format'')
        (df_update (at_upd i (\<lambda>r. r\<lparr>date_joined :=
             (if to_datetime_ok (date_joined row) then date_joined r else Str ''01.Jan.00'')\<rparr>)) s))"
  by (cases s; cases "to_datetime_ok (date_joined row)")
     (simp_all add: rule_date_joined_def msgs_def at_upd_def)

lemma rule_outlier_eq:
  "\<not> is_text (balance row) \<Longrightarrow>
   rule_outlier bt row s =
     Inr (row_issues_update (\<lambda>l. l @ msgs (above_thresh bt (balance row)) ''Outlier in balance'') s)"
  by (cases s; cases "balance row"; cases bt; (cases "the bt")?)
     (auto simp add: rule_outlier_def msgs_def above_thresh_def)

lemma map_age_at_upd:
  "(\<And>r. age (f r) = age r) \<Longrightarrow> map age (at_upd i f xs) = map age xs"
  unfolding at_upd_def
  by (cases "i < length xs") (simp_all add: map_update list_update_same_conv list_update_beyond)

text \<open>
  One pass on a row that is still as \<open>iterrows\<close> handed it out: it raises
  \<open>TypeError\<close> on a text balance or on a mean over a column with a text, and otherwise
  repairs the row and appends the two texts.
\<close>

lemma validate_row_eq:
  assumes "i < length (df s)" "df s ! i = row"
  shows "validate_row bt i row s =
     (if mean_raises row (map age (df s)) \<or> is_text (balance row)
      then Inl TypeError
      else Inr \<lparr>df = (df s)[i := repair_row
                       (Str (auto_name (next_free (existing_ids s) (auto_id_counter s))))
                       (mean_val (map age (df s))) row],
                 existing_ids = (if isna (customer_id row)
                       then auto_name (next_free (existing_ids s) (auto_id_counter s)) # existing_ids s
                       else existing_ids s),
                 auto_id_counter = (if isna (customer_id row)
                       then next_free (existing_ids s) (auto_id_counter s) + 1
                       else auto_id_counter s),
                 issues = issues s @ [join ''; '' (row_issue_list bt row)],
                 fixes = fixes s @ [join ''; ''
                       (row_fix_list (auto_name (next_free (existing_ids s) (auto_id_counter s)))
                          (mean_val (map age (df s))) row)],
                 row_issues = row_issue_list bt row,
                 row_fixes = row_fix_list (auto_name (next_free (existing_ids s) (auto_id_counter s)))
                          (mean_val (map age (df s))) row\<rparr>)"
proof (cases "mean_raises row (map age (df s))")
  case True
  then show ?thesis
    using assms
    unfolding validate_row_def Let_def
    by (cases s) (simp add: rule_customer_id_eq rule_name_eq rule_surname_eq
      rule_gender_eq rule_region_eq rule_job_classification_eq rule_age_eq
      at_upd_at_upd map_age_at_upd split del: if_split cong: if_cong)
next
  case a: False
  show ?thesis
  proof (cases "is_text (balance row)")
    case True
    then show ?thesis
      using assms a
      unfolding validate_row_def Let_def
      by (cases s) (simp add: rule_customer_id_eq rule_name_eq rule_surname_eq
        rule_gender_eq rule_region_eq rule_job_classification_eq rule_age_eq rule_balance_eq
        at_upd_at_upd map_age_at_upd split del: if_split cong: if_cong)
  next
    case b: False
    show ?thesis
      using assms a b
      unfolding validate_row_def Let_def 
      apply (cases s; cases row)
      apply (simp add: rule_customer_id_eq rule_name_eq rule_surname_eq
        rule_gender_eq rule_region_eq rule_job_classification_eq rule_age_eq rule_balance_eq
        rule_date_joined_eq rule_outlier_eq
            at_upd_at_upd map_age_at_upd split del: if_split cong: if_cong)
      apply (simp add: at_upd_def repair_row_def row_issue_list_def row_fix_list_def
            split del: if_split cong: if_cong)
      done
  qed
qed

section \<open>The loop, row by row\<close>

lemma validate_data_eq:
  "validate_data num_str state =
     (case df_raw state of
        None \<Rightarrow> Inl KeyError
      | Some raw \<Rightarrow>
          (case after_rows (balance_thresh_of (rows raw)) (rows raw) (length (rows raw))
                  (init_state num_str (rows raw)) of
             Inl e \<Rightarrow> Inl e
           | Inr s \<Rightarrow>
               Inr \<lparr>df_raw = Some \<lparr>rows = df s, validation_issues = Some (issues s),
                                    fix_suggestions = Some (fixes s)\<rparr>,
                     df_validated = Some \<lparr>rows = df s, validation_issues = Some (issues s),
                                    fix_suggestions = Some (fixes s)\<rparr>,
                     question = None, sql = None, result = None, status = Some OK\<rparr>))"
  unfolding validate_data_def after_rows_def balance_thresh_of_def init_state_def ids_of_def
  by (simp add: Let_def iterrows_def split: option.splits sum.splits)

lemma for_rows_append:
  "for_rows body (xs @ ys) s =
     (case for_rows body xs s of Inl e \<Rightarrow> Inl e | Inr s' \<Rightarrow> for_rows body ys s')"
  by (induction xs arbitrary: s) (auto split: sum.splits)

lemma after_rows_0: "after_rows bt d 0 s0 = Inr s0"
  by (simp add: after_rows_def)

lemma after_rows_Suc:
  assumes "k < length d"
  shows "after_rows bt d (Suc k) s0 =
     (case after_rows bt d k s0 of Inl e \<Rightarrow> Inl e | Inr s \<Rightarrow> validate_row bt k (d ! k) s)"
proof -
  from assms have "take (Suc k) (iterrows d) = take k (iterrows d) @ [(k, d ! k)]"
    by (simp add: iterrows_def take_Suc_conv_app_nth)
  then show ?thesis
    by (simp add: after_rows_def for_rows_append split: sum.splits)
qed

text \<open>Induction over the rows visited, for runs that return.\<close>

lemma after_rows_induct:
  assumes run: "after_rows bt d k s0 = Inr s" and k: "k \<le> length d"
    and base: "P 0 s0"
    and step: "\<And>j t t'. j < k \<Longrightarrow> after_rows bt d j s0 = Inr t \<Longrightarrow> P j t
                 \<Longrightarrow> validate_row bt j (d ! j) t = Inr t' \<Longrightarrow> P (Suc j) t'"
  shows "P k s"
  using run k step
proof (induction k arbitrary: s)
  case 0
  with base show ?case by (simp add: after_rows_0)
next
  case (Suc k)
  from Suc.prems(2) have kl: "k < length d" by simp
  from Suc.prems(1) kl obtain t where t: "after_rows bt d k s0 = Inr t"
    and v: "validate_row bt k (d ! k) t = Inr s"
    by (auto simp add: after_rows_Suc split: sum.splits)
  have "P k t"
  proof (rule Suc.IH [OF t])
    show "k \<le> length d" using kl by simp
    fix j u u'
    assume "j < k" "after_rows bt d j s0 = Inr u" "P j u" "validate_row bt j (d ! j) u = Inr u'"
    then show "P (Suc j) u'" using Suc.prems(3) [of j u u'] by simp
  qed
  with Suc.prems(3) [of k t s] t v show ?case by simp
qed

lemma validate_row_InrD:
  assumes "validate_row bt i row s = Inr s'" "i < length (df s)" "df s ! i = row"
  shows "\<not> mean_raises row (map age (df s))" "\<not> is_text (balance row)"
    "df s' = (df s)[i := repair_row (Str (new_id_of s)) (mean_val (map age (df s))) row]"
    "existing_ids s' = (if isna (customer_id row) then new_id_of s # existing_ids s else existing_ids s)"
    "auto_id_counter s' = (if isna (customer_id row)
        then next_free (existing_ids s) (auto_id_counter s) + 1 else auto_id_counter s)"
    "issues s' = issues s @ [join ''; '' (row_issue_list bt row)]"
    "fixes s' = fixes s @ [join ''; '' (row_fix_list (new_id_of s) (mean_val (map age (df s))) row)]"
  using assms validate_row_eq [OF assms(2,3), of bt]
  by (auto simp add: new_id_of_def split: if_splits)

text \<open>Shape: the frame keeps its length and the rows not yet visited are untouched.\<close>

lemma after_rows_shape:
  assumes "after_rows bt d k s0 = Inr s" "k \<le> length d" "df s0 = d"
  shows "length (df s) = length d \<and> (\<forall>j. k \<le> j \<and> j < length d \<longrightarrow> df s ! j = d ! j)"
proof (rule after_rows_induct [OF assms(1,2)])
  show "length (df s0) = length d \<and> (\<forall>j. 0 \<le> j \<and> j < length d \<longrightarrow> df s0 ! j = d ! j)"
    using assms(3) by simp
next
  fix j t t'
  assume j: "j < k" and P: "length (df t) = length d \<and> (\<forall>i. j \<le> i \<and> i < length d \<longrightarrow> df t ! i = d ! i)"
    and v: "validate_row bt j (d ! j) t = Inr t'"
  from j assms(2) P have jl: "j < length (df t)" and row: "df t ! j = d ! j" by simp_all
  from validate_row_InrD(3) [OF v jl row] P
  show "length (df t') = length d \<and> (\<forall>i. Suc j \<le> i \<and> i < length d \<longrightarrow> df t' ! i = d ! i)"
    by simp
qed

section \<open>The age column\<close>

lemma nums_fill:
  "i < length col \<Longrightarrow> col ! i = NA \<Longrightarrow>
   sum_list (nums (col[i := Num x])) = sum_list (nums col) + x
   \<and> length (nums (col[i := Num x])) = Suc (length (nums col))"
proof (induction col arbitrary: i)
  case Nil
  then show ?case by simp
next
  case (Cons c cs)
  show ?case
  proof (cases i)
    case 0
    with Cons.prems show ?thesis by simp
  next
    case (Suc i')
    with Cons.prems have "i' < length cs" "cs ! i' = NA" by simp_all
    from Cons.IH [OF this] Suc show ?thesis by (cases c) simp_all
  qed
qed

lemma mean_val_fill:
  assumes "i < length col" "col ! i = NA"
  shows "mean_val (col[i := cell_of (mean_val col)]) = mean_val col"
proof (cases "nums col = []")
  case True
  then have "mean_val col = NaN" by (simp add: mean_val_def)
  moreover from assms(2) have "col[i := NA] = col[i := col ! i]" by simp
  then have "col[i := NA] = col" by (simp only: list_update_id)
  ultimately show ?thesis by simp
next
  case False
  define S where "S = sum_list (nums col)"
  define n where "n = length (nums col)"
  from False have n: "n > 0" by (simp add: n_def)
  have m: "mean_val col = Fin (S / of_nat n)"
    using False by (simp add: mean_val_def S_def n_def)
  from nums_fill [OF assms, of "S / of_nat n"]
  have s': "sum_list (nums (col[i := Num (S / of_nat n)])) = S + S / of_nat n"
    and l': "length (nums (col[i := Num (S / of_nat n)])) = Suc n"
    by (simp_all add: S_def n_def)
  from l' have ne: "nums (col[i := Num (S / of_nat n)]) \<noteq> []" by auto
  have "(S + S / of_nat n) / of_nat (Suc n) = S / (of_nat n :: rat)"
  proof -
    define N where "N = (of_nat n :: rat)"
    from n have N: "N > 0" by (simp add: N_def)
    have "S + S / N = S * (N + 1) / N" using N by (simp add: field_simps)
    moreover have "S * (N + 1) / N / (N + 1) = S / N" using N by simp
    ultimately have "(S + S / N) / (N + 1) = S / N" by simp
    then show ?thesis by (simp add: N_def add.commute)
  qed
  with ne s' l' have "mean_val (col[i := Num (S / of_nat n)]) = Fin (S / of_nat n)"
    by (simp add: mean_val_def)
  with m show ?thesis by simp
qed

lemma not_text_cell_of: "\<not> is_text (cell_of m)"
  by (cases m) simp_all

lemma list_ex_text_update:
  "i < length col \<Longrightarrow> \<not> is_text (col ! i) \<Longrightarrow> \<not> is_text v \<Longrightarrow>
   list_ex is_text (col[i := v]) = list_ex is_text col"
proof (induction col arbitrary: i)
  case Nil
  then show ?case by simp
next
  case (Cons c cs)
  then show ?case by (cases i) auto
qed

lemma age_repair_row: "age (repair_row c m r) = (if isna (age r) then cell_of m else age r)"
  by (simp add: repair_row_def)

lemma repair_row_own_id: "repair_row (customer_id (repair_row c m r)) m r = repair_row c m r"
  by (simp add: repair_row_def)

text \<open>One step on the age column.\<close>

lemma age_column_step:
  assumes v: "validate_row bt j row t = Inr t'" and jl: "j < length (df t)" and row: "df t ! j = row"
  shows "mean_val (map age (df t')) = mean_val (map age (df t))"
    and "list_ex is_text (map age (df t')) = list_ex is_text (map age (df t))"
proof -
  let ?col = "map age (df t)"
  from validate_row_InrD(3) [OF v jl row]
  have col': "map age (df t') = ?col[j := age (repair_row (Str (new_id_of t)) (mean_val ?col) row)]"
    by (simp add: map_update)
  have cj: "?col ! j = age row" using jl row by simp
  show "mean_val (map age (df t')) = mean_val ?col"
  proof (cases "isna (age row)")
    case True
    then have "?col ! j = NA" using cj by (simp add: isna_def)
    from mean_val_fill [OF _ this] jl col' True show ?thesis
      by (simp add: age_repair_row)
  next
    case False
    from cj have "?col[j := age row] = ?col[j := ?col ! j]" by simp
    then have "?col[j := age row] = ?col" by (simp only: list_update_id)
    with col' False show ?thesis by (simp add: age_repair_row)
  qed
  show "list_ex is_text (map age (df t')) = list_ex is_text ?col"
  proof (cases "isna (age row)")
    case True
    then have "\<not> is_text (?col ! j)" using cj by (simp add: isna_def)
    from list_ex_text_update [OF _ this not_text_cell_of] jl col' True show ?thesis
      by (simp add: age_repair_row)
  next
    case False
    from cj have "?col[j := age row] = ?col[j := ?col ! j]" by simp
    then have "?col[j := age row] = ?col" by (simp only: list_update_id)
    with col' False show ?thesis by (simp add: age_repair_row)
  qed
qed

lemma after_rows_ages:
  assumes run: "after_rows bt d k s0 = Inr s" and k: "k \<le> length d" and s0: "df s0 = d"
  shows "mean_val (map age (df s)) = mean_val (map age d)
       \<and> list_ex is_text (map age (df s)) = list_ex is_text (map age d)
       \<and> (\<forall>j<k. df s ! j = repair_row (customer_id (df s ! j)) (mean_val (map age d)) (d ! j))"
proof (rule after_rows_induct [OF run k])
  show "mean_val (map age (df s0)) = mean_val (map age d)
       \<and> list_ex is_text (map age (df s0)) = list_ex is_text (map age d)
       \<and> (\<forall>j<0. df s0 ! j = repair_row (customer_id (df s0 ! j)) (mean_val (map age d)) (d ! j))"
    using s0 by simp
next
  fix j t t'
  assume j: "j < k" and t: "after_rows bt d j s0 = Inr t"
    and P: "mean_val (map age (df t)) = mean_val (map age d)
       \<and> list_ex is_text (map age (df t)) = list_ex is_text (map age d)
       \<and> (\<forall>i<j. df t ! i = repair_row (customer_id (df t ! i)) (mean_val (map age d)) (d ! i))"
    and v: "validate_row bt j (d ! j) t = Inr t'"
  from j k have jd: "j \<le> length d" "j < length d" by simp_all
  from after_rows_shape [OF t jd(1) s0] jd(2)
  have jl: "j < length (df t)" and row: "df t ! j = d ! j" by simp_all
  note step = age_column_step [OF v jl row]
  from validate_row_InrD(3) [OF v jl row] P
  have df': "df t' = (df t)[j := repair_row (Str (new_id_of t)) (mean_val (map age d)) (d ! j)]"
    by simp
  have "\<forall>i<Suc j. df t' ! i = repair_row (customer_id (df t' ! i)) (mean_val (map age d)) (d ! i)"
  proof (intro allI impI)
    fix i assume i: "i < Suc j"
    show "df t' ! i = repair_row (customer_id (df t' ! i)) (mean_val (map age d)) (d ! i)"
    proof (cases "i = j")
      case True
      with df' jl show ?thesis by (simp add: repair_row_own_id)
    next
      case False
      with i have "i < j" by simp
      with P df' False show ?thesis by simp
    qed
  qed
  with step P
  show "mean_val (map age (df t')) = mean_val (map age d)
       \<and> list_ex is_text (map age (df t')) = list_ex is_text (map age d)
       \<and> (\<forall>i<Suc j. df t' ! i = repair_row (customer_id (df t' ! i)) (mean_val (map age d)) (d ! i))"
    by simp
qed

section \<open>The two text columns\<close>

lemma row_fix_list_own_id:
  "row_fix_list (text_of (customer_id (repair_row (Str x) m r))) m' r = row_fix_list x m' r"
  by (simp add: row_fix_list_def repair_row_def msgs_def)

lemma after_rows_texts:
  assumes run: "after_rows bt d k s0 = Inr s" and k: "k \<le> length d" and s0: "df s0 = d"
    and e: "issues s0 = []" "fixes s0 = []"
  shows "length (issues s) = k \<and> length (fixes s) = k
       \<and> (\<forall>j<k. issues s ! j = join ''; '' (row_issue_list bt (d ! j))
              \<and> fixes s ! j = join ''; ''
                   (row_fix_list (text_of (customer_id (df s ! j))) (mean_val (map age d)) (d ! j)))"
proof (rule after_rows_induct [OF run k])
  show "length (issues s0) = 0 \<and> length (fixes s0) = 0
       \<and> (\<forall>j<0. issues s0 ! j = join ''; '' (row_issue_list bt (d ! j))
              \<and> fixes s0 ! j = join ''; ''
                   (row_fix_list (text_of (customer_id (df s0 ! j))) (mean_val (map age d)) (d ! j)))"
    using e by simp
next
  fix j t t'
  assume j: "j < k" and t: "after_rows bt d j s0 = Inr t"
    and P: "length (issues t) = j \<and> length (fixes t) = j
       \<and> (\<forall>i<j. issues t ! i = join ''; '' (row_issue_list bt (d ! i))
              \<and> fixes t ! i = join ''; ''
                   (row_fix_list (text_of (customer_id (df t ! i))) (mean_val (map age d)) (d ! i)))"
    and v: "validate_row bt j (d ! j) t = Inr t'"
  from j k have jd: "j \<le> length d" "j < length d" by simp_all
  from after_rows_shape [OF t jd(1) s0] jd(2)
  have jl: "j < length (df t)" and row: "df t ! j = d ! j" by simp_all
  from after_rows_ages [OF t jd(1) s0] have m: "mean_val (map age (df t)) = mean_val (map age d)"
    by simp
  note D = validate_row_InrD [OF v jl row]
  from D(3) m have df': "df t' = (df t)[j := repair_row (Str (new_id_of t)) (mean_val (map age d)) (d ! j)]"
    by simp
  from D(6) have is': "issues t' = issues t @ [join ''; '' (row_issue_list bt (d ! j))]" .
  from D(7) m have fx': "fixes t' = fixes t @ [join ''; '' (row_fix_list (new_id_of t) (mean_val (map age d)) (d ! j))]"
    by simp
  have "\<forall>i<Suc j. issues t' ! i = join ''; '' (row_issue_list bt (d ! i))
              \<and> fixes t' ! i = join ''; ''
                   (row_fix_list (text_of (customer_id (df t' ! i))) (mean_val (map age d)) (d ! i))"
  proof (intro allI impI)
    fix i assume i: "i < Suc j"
    show "issues t' ! i = join ''; '' (row_issue_list bt (d ! i))
              \<and> fixes t' ! i = join ''; ''
                   (row_fix_list (text_of (customer_id (df t' ! i))) (mean_val (map age d)) (d ! i))"
    proof (cases "i = j")
      case True
      with P is' fx' df' jl show ?thesis
        by (simp add: nth_append row_fix_list_own_id)
    next
      case False
      with i have "i < j" by simp
      with P is' fx' df' False show ?thesis
        by (simp add: nth_append)
    qed
  qed
  with P is' fx'
  show "length (issues t') = Suc j \<and> length (fixes t') = Suc j
       \<and> (\<forall>i<Suc j. issues t' ! i = join ''; '' (row_issue_list bt (d ! i))
              \<and> fixes t' ! i = join ''; ''
                   (row_fix_list (text_of (customer_id (df t' ! i))) (mean_val (map age d)) (d ! i)))"
    by simp
qed

section \<open>The allocation of ids\<close>

lemma next_free_ge: "n \<le> next_free ids n"
proof (induction ids n rule: next_free.induct)
  case (1 ids n)
  show ?case
  proof (cases "auto_name n \<in> set ids")
    case True
    with "1.IH" have "n + 1 \<le> next_free ids (n + 1)" by simp
    with True show ?thesis by (simp add: next_free.simps [of ids n])
  next
    case False
    then show ?thesis by (simp add: next_free.simps [of ids n])
  qed
qed

lemma next_free_free: "auto_name (next_free ids n) \<notin> set ids"
proof (induction ids n rule: next_free.induct)
  case (1 ids n)
  show ?case
  proof (cases "auto_name n \<in> set ids")
    case True
    with "1.IH" show ?thesis by (simp add: next_free.simps [of ids n])
  next
    case False
    then show ?thesis by (simp add: next_free.simps [of ids n])
  qed
qed

lemma next_free_least: "n \<le> m \<Longrightarrow> m < next_free ids n \<Longrightarrow> auto_name m \<in> set ids"
proof (induction ids n rule: next_free.induct)
  case (1 ids n)
  show ?case
  proof (cases "auto_name n \<in> set ids")
    case True
    show ?thesis
    proof (cases "m = n")
      case True
      with \<open>auto_name n \<in> set ids\<close> show ?thesis by simp
    next
      case False
      with "1.prems" have "n + 1 \<le> m" by simp
      moreover from "1.prems" True have "m < next_free ids (n + 1)"
        by (simp add: next_free.simps [of ids n])
      ultimately show ?thesis using "1.IH" [OF True] by simp
    qed
  next
    case False
    with "1.prems" show ?thesis by (simp add: next_free.simps [of ids n])
  qed
qed

lemma taken_cong:
  "(\<And>i. i < j \<Longrightarrow> out' ! i = out ! i) \<Longrightarrow> taken ids0 d out' j = taken ids0 d out j"
  unfolding taken_def by auto

lemma taken_Suc_absent:
  "\<not> isna (customer_id (d ! j)) \<Longrightarrow> taken ids0 d out (Suc j) = taken ids0 d out j"
  unfolding taken_def by (auto simp add: less_Suc_eq)

lemma taken_Suc_new:
  "isna (customer_id (d ! j)) \<Longrightarrow> customer_id (out ! j) = Str x \<Longrightarrow>
   taken ids0 d out (Suc j) = insert x (taken ids0 d out j)"
  unfolding taken_def by (auto simp add: less_Suc_eq)

lemma customer_id_repair_row:
  "customer_id (repair_row c m r) = (if isna (customer_id r) then c else customer_id r)"
  by (simp add: repair_row_def)

lemma after_rows_ids:
  assumes run: "after_rows bt d k s0 = Inr s" and k: "k \<le> length d" and s0: "df s0 = d"
    and i0: "existing_ids s0 = ids0" "auto_id_counter s0 = 100001"
  shows "id_inv ids0 d k s"
proof (rule after_rows_induct [OF run k])
  show "id_inv ids0 d 0 s0"
    using i0 by (auto simp add: id_inv_def taken_def)
next
  fix j t t'
  assume j: "j < k" and t: "after_rows bt d j s0 = Inr t"
    and P: "id_inv ids0 d j t"
    and v: "validate_row bt j (d ! j) t = Inr t'"
  from j k have jd: "j \<le> length d" "j < length d" by simp_all
  from after_rows_shape [OF t jd(1) s0] jd(2)
  have jl: "j < length (df t)" and row: "df t ! j = d ! j" by simp_all
  note D = validate_row_InrD [OF v jl row]
  from D(3) have old: "\<And>i. i < j \<Longrightarrow> df t' ! i = df t ! i" by simp
  from D(3) jl have cj: "customer_id (df t' ! j)
      = (if isna (customer_id (d ! j)) then Str (new_id_of t) else customer_id (d ! j))"
    by (simp add: customer_id_repair_row)
  from P have c1: "100001 \<le> auto_id_counter t"
    and c2: "\<And>m. 100001 \<le> m \<Longrightarrow> m < auto_id_counter t \<Longrightarrow> auto_name m \<in> set (existing_ids t)"
    and c3: "set (existing_ids t) = taken ids0 d (df t) j"
    and c4: "\<And>i. i < j \<Longrightarrow> isna (customer_id (d ! i)) \<Longrightarrow>
           (\<exists>n. 100001 \<le> n \<and> customer_id (df t ! i) = Str (auto_name n)
              \<and> auto_name n \<notin> taken ids0 d (df t) i
              \<and> (\<forall>m. 100001 \<le> m \<and> m < n \<longrightarrow> auto_name m \<in> taken ids0 d (df t) i))"
    unfolding id_inv_def by blast+
  have tk: "\<And>i. i \<le> j \<Longrightarrow> taken ids0 d (df t') i = taken ids0 d (df t) i"
    by (rule taken_cong) (simp add: old)
  have earlier: "\<And>i. i < j \<Longrightarrow> isna (customer_id (d ! i)) \<Longrightarrow>
           (\<exists>n. 100001 \<le> n \<and> customer_id (df t' ! i) = Str (auto_name n)
              \<and> auto_name n \<notin> taken ids0 d (df t') i
              \<and> (\<forall>m. 100001 \<le> m \<and> m < n \<longrightarrow> auto_name m \<in> taken ids0 d (df t') i))"
    using c4 old tk by simp
  show "id_inv ids0 d (Suc j) t'"
  proof (cases "isna (customer_id (d ! j))")
    case False
    with D(4,5) have same: "existing_ids t' = existing_ids t" "auto_id_counter t' = auto_id_counter t"
      by simp_all
    have "taken ids0 d (df t') (Suc j) = taken ids0 d (df t) j"
      using taken_Suc_absent [OF False] tk [of j] by simp
    with same c1 c2 c3 earlier False show ?thesis
      unfolding id_inv_def by (auto simp add: less_Suc_eq)
  next
    case True
    define n where "n = next_free (existing_ids t) (auto_id_counter t)"
    have nid: "new_id_of t = auto_name n" by (simp add: new_id_of_def n_def)
    from True D(4,5) nid have ex': "existing_ids t' = auto_name n # existing_ids t"
      and cn': "auto_id_counter t' = n + 1" by (simp_all add: n_def)
    have nge: "auto_id_counter t \<le> n" unfolding n_def by (rule next_free_ge)
    have nfree: "auto_name n \<notin> set (existing_ids t)" unfolding n_def by (rule next_free_free)
    have nleast: "\<And>m. auto_id_counter t \<le> m \<Longrightarrow> m < n \<Longrightarrow> auto_name m \<in> set (existing_ids t)"
      unfolding n_def by (rule next_free_least)
    have below: "\<And>m. 100001 \<le> m \<Longrightarrow> m < n \<Longrightarrow> auto_name m \<in> set (existing_ids t)"
    proof -
      fix m assume m: "100001 \<le> m" "m < n"
      show "auto_name m \<in> set (existing_ids t)"
      proof (cases "m < auto_id_counter t")
        case True
        with m c2 show ?thesis by simp
      next
        case False
        with m nleast show ?thesis by simp
      qed
    qed
    from cj True nid have cj': "customer_id (df t' ! j) = Str (auto_name n)" by simp
    have tS: "taken ids0 d (df t') (Suc j) = insert (auto_name n) (taken ids0 d (df t) j)"
      using taken_Suc_new [OF True cj'] tk [of j] by simp
    have a: "100001 \<le> auto_id_counter t'" using cn' c1 nge by simp
    have b: "\<forall>m. 100001 \<le> m \<and> m < auto_id_counter t' \<longrightarrow> auto_name m \<in> set (existing_ids t')"
    proof (intro allI impI)
      fix m assume m: "100001 \<le> m \<and> m < auto_id_counter t'"
      show "auto_name m \<in> set (existing_ids t')"
      proof (cases "m = n")
        case True
        then show ?thesis by (simp add: ex')
      next
        case False
        with m cn' have "m < n" by simp
        with m below show ?thesis by (simp add: ex')
      qed
    qed
    have c: "set (existing_ids t') = taken ids0 d (df t') (Suc j)"
      using ex' c3 tS by simp
    have here: "100001 \<le> n \<and> customer_id (df t' ! j) = Str (auto_name n)
              \<and> auto_name n \<notin> taken ids0 d (df t') j
              \<and> (\<forall>m. 100001 \<le> m \<and> m < n \<longrightarrow> auto_name m \<in> taken ids0 d (df t') j)"
      using c1 nge cj' nfree below c3 tk [of j] by simp
    have d: "\<forall>i<Suc j. isna (customer_id (d ! i)) \<longrightarrow>
           (\<exists>n. 100001 \<le> n \<and> customer_id (df t' ! i) = Str (auto_name n)
              \<and> auto_name n \<notin> taken ids0 d (df t') i
              \<and> (\<forall>m. 100001 \<le> m \<and> m < n \<longrightarrow> auto_name m \<in> taken ids0 d (df t') i))"
    proof (intro allI impI)
      fix i assume i: "i < Suc j" and na: "isna (customer_id (d ! i))"
      show "\<exists>n. 100001 \<le> n \<and> customer_id (df t' ! i) = Str (auto_name n)
              \<and> auto_name n \<notin> taken ids0 d (df t') i
              \<and> (\<forall>m. 100001 \<le> m \<and> m < n \<longrightarrow> auto_name m \<in> taken ids0 d (df t') i)"
      proof (cases "i = j")
        case True
        with here show ?thesis by blast
      next
        case False
        with i have "i < j" by simp
        from earlier [OF this na] show ?thesis .
      qed
    qed
    from a b c d show ?thesis unfolding id_inv_def by blast
  qed
qed

section \<open>Facts for evaluating the examples\<close>

lemma date_ok: "to_datetime_ok (Str ''05.Jan.15'')"
  by code_simp

lemma sentinel_ok: "to_datetime_ok (Str ''01.Jan.00'')"
  by code_simp

lemma quantile99_zero_hundred: "quantile99 [Num 0, Num 100] = Fin 99"
  by (simp add: quantile99_def Let_def)

lemma quantile99_absent_hundred: "quantile99 [NA, Num 100] = Fin 100"
  by (simp add: quantile99_def Let_def)

lemmas eval_simps = validate_data_eq raw_state_def example_row_def after_rows_def iterrows_def
  init_state_def ids_of_def balance_thresh_of_def is_numeric_dtype_def validate_row_eq
  mean_raises_def repair_row_def row_issue_list_def row_fix_list_def msgs_def isna_def
  bad_balance_def above_thresh_def date_ok sentinel_ok mean_val_def issues_of_def rows_of_def
  fixes_of_def upt_rec

section \<open>When the loop returns\<close>

lemma after_rows_needs:
  assumes run: "after_rows bt d k s0 = Inr s" and k: "k \<le> length d" and s0: "df s0 = d"
  shows "\<forall>j<k. row_ok d (d ! j)"
proof (rule after_rows_induct [OF run k])
  show "\<forall>j<0. row_ok d (d ! j)" by simp
next
  fix j t t'
  assume j: "j < k" and t: "after_rows bt d j s0 = Inr t"
    and P: "\<forall>i<j. row_ok d (d ! i)"
    and v: "validate_row bt j (d ! j) t = Inr t'"
  from j k have jd: "j \<le> length d" "j < length d" by simp_all
  from after_rows_shape [OF t jd(1) s0] jd(2)
  have jl: "j < length (df t)" and row: "df t ! j = d ! j" by simp_all
  from after_rows_ages [OF t jd(1) s0]
  have tx: "list_ex is_text (map age (df t)) = list_ex is_text (map age d)" by simp
  from validate_row_InrD(1,2) [OF v jl row] tx have "row_ok d (d ! j)"
    by (simp add: row_ok_def mean_raises_def)
  with P show "\<forall>i<Suc j. row_ok d (d ! i)" by (simp add: less_Suc_eq)
qed

lemma after_rows_total:
  assumes s0: "df s0 = d" and k: "k \<le> length d" and ok: "\<forall>j<k. row_ok d (d ! j)"
  shows "\<exists>s. after_rows bt d k s0 = Inr s"
  using k ok
proof (induction k)
  case 0
  show ?case by (simp add: after_rows_0)
next
  case (Suc k)
  then obtain t where t: "after_rows bt d k s0 = Inr t" by auto
  from Suc.prems have kd: "k \<le> length d" "k < length d" by simp_all
  from after_rows_shape [OF t kd(1) s0] kd(2)
  have kl: "k < length (df t)" and row: "df t ! k = d ! k" by simp_all
  from after_rows_ages [OF t kd(1) s0]
  have tx: "list_ex is_text (map age (df t)) = list_ex is_text (map age d)" by simp
  from Suc.prems have "row_ok d (d ! k)" by simp
  with tx have "\<not> mean_raises (d ! k) (map age (df t))" "\<not> is_text (balance (d ! k))"
    by (simp_all add: row_ok_def mean_raises_def)
  with validate_row_eq [OF kl row, of bt] t kd(2) show ?case
    by (simp add: after_rows_Suc)
qed


lemma all_rows_ok_iff:
  "(\<forall>j<length d. row_ok d (d ! j)) \<longleftrightarrow>
     (\<forall>r\<in>set d. \<not> is_text (balance r))
     \<and> \<not> ((\<exists>r\<in>set d. isna (age r)) \<and> (\<exists>r\<in>set d. is_text (age r)))"
proof -
  have "(\<forall>j<length d. row_ok d (d ! j)) \<longleftrightarrow> (\<forall>r\<in>set d. row_ok d r)"
    by (simp add: all_set_conv_all_nth)
  also have "\<dots> \<longleftrightarrow> (\<forall>r\<in>set d. \<not> is_text (balance r))
     \<and> \<not> ((\<exists>r\<in>set d. isna (age r)) \<and> (\<exists>r\<in>set d. is_text (age r)))"
    unfolding row_ok_def list_ex_iff by auto
  finally show ?thesis .
qed

section \<open>What \<open>validate_data\<close> returns\<close>

lemma validate_data_Inr:
  assumes "validate_data num_str state = Inr g" "df_raw state = Some raw"
  obtains s where
    "after_rows (balance_thresh_of (rows raw)) (rows raw) (length (rows raw))
        (init_state num_str (rows raw)) = Inr s"
    "g = validated s"
  using assms by (auto simp add: validate_data_eq validated_def split: sum.splits)

lemma validate_data_ok:
  assumes "df_raw state = Some raw" "\<forall>j<length (rows raw). row_ok (rows raw) (rows raw ! j)"
  shows "\<exists>s. validate_data num_str state = Inr (validated s)"
proof -
  have "df (init_state num_str (rows raw)) = rows raw" by (simp add: init_state_def)
  from after_rows_total [OF this _ assms(2), of "balance_thresh_of (rows raw)"]
  obtain s where "after_rows (balance_thresh_of (rows raw)) (rows raw) (length (rows raw))
        (init_state num_str (rows raw)) = Inr s" by auto
  with assms(1) show ?thesis by (auto simp add: validate_data_eq validated_def)
qed


text \<open>Everything the invariants say about a run that returned.\<close>

lemma validate_data_run:
  assumes "validate_data num_str state = Inr g" "df_raw state = Some raw"
  obtains s where "g = validated s"
    "length (df s) = length (rows raw)"
    "length (issues s) = length (rows raw)"
    "length (fixes s) = length (rows raw)"
    "mean_val (map age (df s)) = mean_val (map age (rows raw))"
    "list_ex is_text (map age (df s)) = list_ex is_text (map age (rows raw))"
    "\<forall>j<length (rows raw).
        df s ! j = repair_row (customer_id (df s ! j)) (mean_val (map age (rows raw))) (rows raw ! j)
      \<and> issues s ! j = join ''; '' (row_issue_list (balance_thresh_of (rows raw)) (rows raw ! j))
      \<and> fixes s ! j = join ''; '' (row_fix_list (text_of (customer_id (df s ! j)))
                                      (mean_val (map age (rows raw))) (rows raw ! j))
      \<and> row_ok (rows raw) (rows raw ! j)"
    "id_inv (ids_of num_str (rows raw)) (rows raw) (length (rows raw)) s"
proof -
  let ?d = "rows raw"
  from validate_data_Inr [OF assms] obtain s where
    run: "after_rows (balance_thresh_of ?d) ?d (length ?d) (init_state num_str ?d) = Inr s"
    and g: "g = validated s" by blast
  have i: "df (init_state num_str ?d) = ?d" "issues (init_state num_str ?d) = []"
    "fixes (init_state num_str ?d) = []" "existing_ids (init_state num_str ?d) = ids_of num_str ?d"
    "auto_id_counter (init_state num_str ?d) = 100001"
    by (simp_all add: init_state_def)
  note sh = after_rows_shape [OF run _ i(1)]
  note ag = after_rows_ages [OF run _ i(1)]
  note tx = after_rows_texts [OF run _ i(1,2,3)]
  note nd = after_rows_needs [OF run _ i(1)]
  note id = after_rows_ids [OF run _ i(1,4,5)]
  show ?thesis
    by (rule that [of s]) (use g sh ag tx nd id in simp_all)
qed

section \<open>The fill of absent ages\<close>












lemma ages_example_ok: "\<forall>j<length ages_example. row_ok ages_example (ages_example ! j)"
  unfolding all_rows_ok_iff by (simp add: ages_example_def example_row_def isna_def)


section \<open>Failure and success of the validator\<close>




section \<open>The ids given to rows without one\<close>

lemma ids_of_mem:
  assumes "j < length d" "customer_id (d ! j) = Str x"
  shows "x \<in> set (ids_of num_str d)"
proof -
  from assms(1) have "d ! j \<in> set d" by simp
  then have "customer_id (d ! j) \<in> customer_id ` set d" by (rule imageI)
  with assms(2) have "Str x \<in> set (filter (\<lambda>c. \<not> isna c) (map customer_id d))"
    by (simp add: isna_def)
  then have "astype_str num_str (Str x) \<in> set (ids_of num_str d)"
    unfolding ids_of_def by (simp only: set_map) (rule imageI)
  then show ?thesis by simp
qed

text \<open>
  Claim C5: in a run that returns, every row without an id gets \<open>AUTO-n\<close>, where
  \<open>n\<close> is the first number from 100001 on whose name is neither among the ids of the
  file (as texts) nor among the ids given to earlier rows; the ids given are pairwise
  distinct, differ from every id of the file, and ids of the file are kept.
\<close>

theorem auto_ids_fresh_and_distinct:
  assumes "validate_data num_str state = Inr g" and "df_raw state = Some raw"
    and "df_validated g = Some out"
  shows "(\<forall>i<length (rows raw). isna (customer_id (rows raw ! i)) \<longrightarrow>
           (\<exists>n. 100001 \<le> n \<and> customer_id (rows out ! i) = Str (auto_name n)
              \<and> auto_name n \<notin> taken (ids_of num_str (rows raw)) (rows raw) (rows out) i
              \<and> (\<forall>m. 100001 \<le> m \<and> m < n \<longrightarrow>
                    auto_name m \<in> taken (ids_of num_str (rows raw)) (rows raw) (rows out) i)))
    \<and> (\<forall>i j. i < j \<and> j < length (rows raw) \<and> isna (customer_id (rows raw ! i))
              \<and> isna (customer_id (rows raw ! j))
           \<longrightarrow> customer_id (rows out ! i) \<noteq> customer_id (rows out ! j))
    \<and> (\<forall>i j. i < length (rows raw) \<and> j < length (rows raw) \<and> isna (customer_id (rows raw ! i))
              \<and> \<not> isna (customer_id (rows raw ! j))
           \<longrightarrow> customer_id (rows out ! j) = customer_id (rows raw ! j)
             \<and> customer_id (rows out ! i) \<noteq> customer_id (rows raw ! j))"
proof -
  let ?d = "rows raw"
  let ?ids = "ids_of num_str ?d"
  from validate_data_run [OF assms(1,2)] obtain s where g: "g = validated s"
    and rows: "\<forall>j<length ?d.
        df s ! j = repair_row (customer_id (df s ! j)) (mean_val (map age ?d)) (?d ! j)
      \<and> issues s ! j = join ''; '' (row_issue_list (balance_thresh_of ?d) (?d ! j))
      \<and> fixes s ! j = join ''; '' (row_fix_list (text_of (customer_id (df s ! j)))
                                      (mean_val (map age ?d)) (?d ! j))
      \<and> row_ok ?d (?d ! j)"
    and inv: "id_inv ?ids ?d (length ?d) s"
    by blast
  from g assms(3) have out: "rows out = df s" by (auto simp add: validated_def)
  from inv out have given: "\<forall>i<length ?d. isna (customer_id (?d ! i)) \<longrightarrow>
           (\<exists>n. 100001 \<le> n \<and> customer_id (rows out ! i) = Str (auto_name n)
              \<and> auto_name n \<notin> taken ?ids ?d (rows out) i
              \<and> (\<forall>m. 100001 \<le> m \<and> m < n \<longrightarrow> auto_name m \<in> taken ?ids ?d (rows out) i))"
    unfolding id_inv_def by simp
  have distinct: "\<forall>i j. i < j \<and> j < length ?d \<and> isna (customer_id (?d ! i))
              \<and> isna (customer_id (?d ! j))
           \<longrightarrow> customer_id (rows out ! i) \<noteq> customer_id (rows out ! j)"
  proof (intro allI impI)
    fix i j
    assume h: "i < j \<and> j < length ?d \<and> isna (customer_id (?d ! i)) \<and> isna (customer_id (?d ! j))"
    then have il: "i < length ?d" by simp
    from given il h obtain n where n: "customer_id (rows out ! i) = Str (auto_name n)" by blast
    from given h obtain n' where n': "customer_id (rows out ! j) = Str (auto_name n')"
      and free: "auto_name n' \<notin> taken ?ids ?d (rows out) j" by blast
    from h n have "auto_name n \<in> taken ?ids ?d (rows out) j"
      unfolding taken_def by blast
    with free have "auto_name n \<noteq> auto_name n'" by auto
    with n n' show "customer_id (rows out ! i) \<noteq> customer_id (rows out ! j)" by simp
  qed
  have kept: "\<forall>i j. i < length ?d \<and> j < length ?d \<and> isna (customer_id (?d ! i))
              \<and> \<not> isna (customer_id (?d ! j))
           \<longrightarrow> customer_id (rows out ! j) = customer_id (?d ! j)
             \<and> customer_id (rows out ! i) \<noteq> customer_id (?d ! j)"
  proof (intro allI impI)
    fix i j
    assume h: "i < length ?d \<and> j < length ?d \<and> isna (customer_id (?d ! i))
              \<and> \<not> isna (customer_id (?d ! j))"
    from rows h have "df s ! j = repair_row (customer_id (df s ! j)) (mean_val (map age ?d)) (?d ! j)"
      by simp
    then have "customer_id (df s ! j)
        = customer_id (repair_row (customer_id (df s ! j)) (mean_val (map age ?d)) (?d ! j))"
      by (rule arg_cong)
    with h have "customer_id (df s ! j) = customer_id (?d ! j)"
      by (simp add: customer_id_repair_row)
    with out have a: "customer_id (rows out ! j) = customer_id (?d ! j)" by simp
    from given h obtain n where n: "customer_id (rows out ! i) = Str (auto_name n)"
      and free: "auto_name n \<notin> taken ?ids ?d (rows out) i" by blast
    have b: "customer_id (rows out ! i) \<noteq> customer_id (?d ! j)"
    proof
      assume "customer_id (rows out ! i) = customer_id (?d ! j)"
      with n have cj: "customer_id (?d ! j) = Str (auto_name n)" by simp
      from h have jl: "j < length ?d" by simp
      from ids_of_mem [OF jl cj] have "auto_name n \<in> set ?ids" .
      with free show False unfolding taken_def by blast
    qed
    from a b show "customer_id (rows out ! j) = customer_id (?d ! j)
             \<and> customer_id (rows out ! i) \<noteq> customer_id (?d ! j)" by blast
  qed
  from given distinct kept show ?thesis by blast
qed

text \<open>
  The theorem at the frame of three rows, whose second row already holds the id
  \<open>AUTO-100001\<close>: the ids given to the first and the third row differ from each other
  and from that id, which is kept.
\<close>

theorem auto_ids_fresh_and_distinct_witness:
  "map_option
     (\<lambda>rs. (customer_id (rs ! 0) = customer_id (rs ! 2),
            customer_id (rs ! 0) = Str ''AUTO-100001'',
            customer_id (rs ! 1)))
     (rows_of (validate_data whole_str (raw_state ages_example)))
   = Some (False, False, Str ''AUTO-100001'')"
proof -
  let ?raw = "\<lparr>rows = ages_example, validation_issues = None, fix_suggestions = None\<rparr>"
  have raw: "df_raw (raw_state ages_example) = Some ?raw"
    by (simp add: raw_state_def)
  from validate_data_ok [OF raw, of whole_str] ages_example_ok
  obtain s where run: "validate_data whole_str (raw_state ages_example) = Inr (validated s)"
    by auto
  let ?out = "\<lparr>rows = df s, validation_issues = Some (issues s), fix_suggestions = Some (fixes s)\<rparr>"
  have out: "df_validated (validated s) = Some ?out"
    by (simp add: validated_def)
  note facts = auto_ids_fresh_and_distinct [OF run raw out]
  have h02: "(0::nat) < 2 \<and> 2 < length (rows ?raw) \<and> isna (customer_id (rows ?raw ! 0))
      \<and> isna (customer_id (rows ?raw ! 2))"
    by (simp add: ages_example_def isna_def)
  have h01: "0 < length (rows ?raw) \<and> 1 < length (rows ?raw) \<and> isna (customer_id (rows ?raw ! 0))
      \<and> \<not> isna (customer_id (rows ?raw ! 1))"
    by (simp add: ages_example_def isna_def)
  from facts h02 have a: "customer_id (rows ?out ! 0) \<noteq> customer_id (rows ?out ! 2)" by blast
  from facts h01 have b: "customer_id (rows ?out ! 1) = customer_id (rows ?raw ! 1)
      \<and> customer_id (rows ?out ! 0) \<noteq> customer_id (rows ?raw ! 1)" by blast
  have c: "customer_id (rows ?raw ! 1) = Str ''AUTO-100001''"
    by (simp add: ages_example_def)
  from a b c show ?thesis
    by (simp add: run rows_of_def validated_def)
qed

section \<open>Validating a validated frame\<close>

lemma bad_balance_repaired: "\<not> bad_balance (if bad_balance b then Num 0 else b)"
  by (simp add: bad_balance_def isna_def)

lemma date_repaired:
  "to_datetime_ok (if to_datetime_ok x then x else Str ''01.Jan.00'')"
  using sentinel_ok by simp

lemma repair_row_twice:
  assumes "\<not> isna (customer_id (repair_row c1 m r))"
  shows "repair_row c2 m (repair_row c1 m r) = repair_row c1 m r"
proof -
  have b: "\<not> bad_balance (balance (repair_row c1 m r))"
    using bad_balance_repaired [of "balance r"] by (simp add: repair_row_def)
  have dt: "to_datetime_ok (date_joined (repair_row c1 m r))"
    using date_repaired [of "date_joined r"] by (simp add: repair_row_def)
  have a: "(if isna (age (repair_row c1 m r)) then cell_of m else age (repair_row c1 m r))
      = age (repair_row c1 m r)"
    by (simp add: repair_row_def)
  have n: "\<not> isna (name (repair_row c1 m r))" "\<not> isna (surname (repair_row c1 m r))"
    "\<not> isna (gender (repair_row c1 m r))" "\<not> isna (region (repair_row c1 m r))"
    "\<not> isna (job_classification (repair_row c1 m r))"
    by (simp_all add: repair_row_def isna_def)
  show ?thesis
    unfolding repair_row_def [of c2 m "repair_row c1 m r"]
    using assms b dt a n by simp
qed

lemma msgs_nonempty: "[] \<notin> set (msgs b (x # xs))"
  by (simp add: msgs_def)

lemma row_issue_list_nonempty: "[] \<notin> set (row_issue_list bt r)"
  by (simp add: row_issue_list_def msgs_def)

lemma join_nil: "join sep xs = [] \<Longrightarrow> [] \<notin> set xs \<Longrightarrow> xs = []"
  by (induction sep xs rule: join.induct) auto

lemma clean_row:
  assumes "row_issue_list bt r = []"
  shows "repair_row c m r = r"
    and "row_issue_list bt' r = msgs (above_thresh bt' (balance r)) ''Outlier in balance''"
proof -
  from assms have c: "\<not> isna (customer_id r)" "\<not> isna (name r)" "\<not> isna (surname r)"
    "\<not> isna (gender r)" "\<not> isna (region r)" "\<not> isna (job_classification r)"
    "\<not> isna (age r)" "\<not> bad_balance (balance r)" "to_datetime_ok (date_joined r)"
    by (simp_all add: row_issue_list_def msgs_def split: if_splits)
  then show "repair_row c m r = r" by (simp add: repair_row_def)
  from c show "row_issue_list bt' r = msgs (above_thresh bt' (balance r)) ''Outlier in balance''"
    by (simp add: row_issue_list_def msgs_def)
qed

lemma repaired_rows_ok:
  assumes "row_ok d r"
    and "list_ex is_text (map age d') = list_ex is_text (map age d)"
  shows "row_ok d' (repair_row c m r)"
proof -
  from assms(1) have "\<not> is_text (balance (repair_row c m r))"
    by (simp add: row_ok_def repair_row_def)
  moreover have "isna (age (repair_row c m r)) \<longrightarrow> \<not> list_ex is_text (map age d')"
  proof
    assume "isna (age (repair_row c m r))"
    then have "isna (age r)" by (simp add: repair_row_def split: if_splits)
    with assms show "\<not> list_ex is_text (map age d')" by (simp add: row_ok_def)
  qed
  ultimately show ?thesis by (simp add: row_ok_def)
qed

text \<open>
  Claim C9, as stated, at a frame of two rows, the first without a balance and the second
  with balance 100: in the first run the threshold is 100 (the one balance present) and
  the second row is clean; the first run stores 0 in the first row, so in the second run
  the threshold is 99 and the second row gets \<open>Outlier in balance\<close>.
\<close>

theorem revalidation_counterexample:
  "issues_of (validate_data whole_str (raw_state late_outlier_example))
     = Some [''Missing or negative balance'', [] ]
   \<and> issues_of (revalidate whole_str (validate_data whole_str (raw_state late_outlier_example)))
     = Some [ [], ''Outlier in balance'']"
  by (simp add: eval_simps revalidate_def late_outlier_example_def quantile99_zero_hundred
        quantile99_absent_hundred del: to_datetime_ok.simps)

text \<open>
  Claim C9, amended: when a run returns, a second run on its output returns too and
  changes none of the nine required fields of any row; every row that ended the first
  run with empty \<open>validation_issues\<close> gets, in the second run, either empty
  \<open>validation_issues\<close> or the single note \<open>Outlier in balance\<close> (the threshold of
  the second run is taken from the repaired balances).
\<close>

theorem revalidation_keeps_rows:
  assumes "validate_data num_str state = Inr g"
  shows "\<exists>g' out out' iss iss'.
           validate_data num_str g = Inr g'
           \<and> df_validated g = Some out \<and> df_validated g' = Some out'
           \<and> validation_issues out = Some iss \<and> validation_issues out' = Some iss'
           \<and> rows out' = rows out
           \<and> (\<forall>i<length (rows out). iss ! i = [] \<longrightarrow>
                  iss' ! i = [] \<or> iss' ! i = ''Outlier in balance'')"
proof -
  from assms obtain raw where raw: "df_raw state = Some raw"
    by (cases "df_raw state") (simp_all add: validate_data_eq)
  let ?d = "rows raw"
  let ?m = "mean_val (map age ?d)"
  from validate_data_run [OF assms raw] obtain s where g: "g = validated s"
    and len: "length (df s) = length ?d"
    and mean: "mean_val (map age (df s)) = ?m"
    and texts: "list_ex is_text (map age (df s)) = list_ex is_text (map age ?d)"
    and rows: "\<forall>j<length ?d.
        df s ! j = repair_row (customer_id (df s ! j)) ?m (?d ! j)
      \<and> issues s ! j = join ''; '' (row_issue_list (balance_thresh_of ?d) (?d ! j))
      \<and> fixes s ! j = join ''; '' (row_fix_list (text_of (customer_id (df s ! j))) ?m (?d ! j))
      \<and> row_ok ?d (?d ! j)"
    and inv: "id_inv (ids_of num_str ?d) ?d (length ?d) s"
    by blast
  let ?out = "\<lparr>rows = df s, validation_issues = Some (issues s), fix_suggestions = Some (fixes s)\<rparr>"
  from g have raw2: "df_raw g = Some ?out" and val: "df_validated g = Some ?out"
    by (simp_all add: validated_def)
  have ids: "\<forall>j<length ?d. \<not> isna (customer_id (df s ! j))"
  proof (intro allI impI)
    fix j assume j: "j < length ?d"
    show "\<not> isna (customer_id (df s ! j))"
    proof (cases "isna (customer_id (?d ! j))")
      case True
      with inv j obtain n where "customer_id (df s ! j) = Str (auto_name n)"
        unfolding id_inv_def by blast
      then show ?thesis by (simp add: isna_def)
    next
      case False
      from rows j have "df s ! j = repair_row (customer_id (df s ! j)) ?m (?d ! j)" by simp
      then have "customer_id (df s ! j)
          = customer_id (repair_row (customer_id (df s ! j)) ?m (?d ! j))"
        by (rule arg_cong)
      with False have "customer_id (df s ! j) = customer_id (?d ! j)"
        by (simp add: customer_id_repair_row)
      with False show ?thesis by simp
    qed
  qed
  have ok2: "\<forall>j<length (rows ?out). row_ok (rows ?out) (rows ?out ! j)"
  proof (intro allI impI)
    fix j assume "j < length (rows ?out)"
    with len have j: "j < length ?d" by simp
    with rows have r: "df s ! j = repair_row (customer_id (df s ! j)) ?m (?d ! j)"
      and o: "row_ok ?d (?d ! j)" by simp_all
    from repaired_rows_ok [OF o texts, of "customer_id (df s ! j)" ?m] r
    show "row_ok (rows ?out) (rows ?out ! j)" by simp
  qed
  from validate_data_ok [OF raw2 ok2, of num_str] obtain s2 where
    run2: "validate_data num_str g = Inr (validated s2)" by blast
  from validate_data_run [OF run2 raw2] obtain s' where g': "validated s2 = validated s'"
    and len': "length (df s') = length (rows ?out)"
    and rows': "\<forall>j<length (rows ?out).
        df s' ! j = repair_row (customer_id (df s' ! j)) (mean_val (map age (rows ?out))) (rows ?out ! j)
      \<and> issues s' ! j = join ''; '' (row_issue_list (balance_thresh_of (rows ?out)) (rows ?out ! j))
      \<and> fixes s' ! j = join ''; '' (row_fix_list (text_of (customer_id (df s' ! j)))
                                      (mean_val (map age (rows ?out))) (rows ?out ! j))
      \<and> row_ok (rows ?out) (rows ?out ! j)"
    by blast
  let ?out' = "\<lparr>rows = df s', validation_issues = Some (issues s'), fix_suggestions = Some (fixes s')\<rparr>"
  from g' have val': "df_validated (validated s2) = Some ?out'"
    by (simp add: validated_def)
  have same: "df s' = df s"
  proof (rule nth_equalityI)
    show "length (df s') = length (df s)" using len' by simp
    fix j assume "j < length (df s')"
    with len' len have j: "j < length ?d" and j': "j < length (rows ?out)" by simp_all
    from rows j have r: "df s ! j = repair_row (customer_id (df s ! j)) ?m (?d ! j)" by simp
    from ids j r have n: "\<not> isna (customer_id (repair_row (customer_id (df s ! j)) ?m (?d ! j)))"
      by simp
    from rows' j' mean r
    have "df s' ! j = repair_row (customer_id (df s' ! j)) ?m
        (repair_row (customer_id (df s ! j)) ?m (?d ! j))" by simp
    also have "\<dots> = repair_row (customer_id (df s ! j)) ?m (?d ! j)"
      by (rule repair_row_twice [OF n])
    finally show "df s' ! j = df s ! j" using r by simp
  qed
  have clean: "\<forall>i<length (rows ?out). issues s ! i = [] \<longrightarrow>
      issues s' ! i = [] \<or> issues s' ! i = ''Outlier in balance''"
  proof (intro allI impI)
    fix i assume i': "i < length (rows ?out)" and e: "issues s ! i = []"
    from i' len have i: "i < length ?d" by simp
    from rows i e have "join ''; '' (row_issue_list (balance_thresh_of ?d) (?d ! i)) = []"
      by simp
    from join_nil [OF this row_issue_list_nonempty]
    have nil: "row_issue_list (balance_thresh_of ?d) (?d ! i) = []" .
    from rows i have "df s ! i = repair_row (customer_id (df s ! i)) ?m (?d ! i)" by simp
    also have "\<dots> = ?d ! i" by (rule clean_row(1) [OF nil])
    finally have "df s ! i = ?d ! i" .
    with rows' i' have "issues s' ! i
        = join ''; '' (row_issue_list (balance_thresh_of (rows ?out)) (?d ! i))" by simp
    also have "\<dots> = join ''; ''
        (msgs (above_thresh (balance_thresh_of (rows ?out)) (balance (?d ! i))) ''Outlier in balance'')"
      by (simp only: clean_row(2) [OF nil])
    finally show "issues s' ! i = [] \<or> issues s' ! i = ''Outlier in balance''"
      by (simp add: msgs_def)
  qed
  from run2 val val' same clean show ?thesis
    by (intro exI [of _ "validated s2"] exI [of _ ?out] exI [of _ ?out']
          exI [of _ "issues s"] exI [of _ "issues s'"]) simp
qed

text \<open>The theorem at the frame of two rows: the second run keeps the rows of the first.\<close>

theorem revalidation_keeps_rows_witness:
  "rows_of (revalidate whole_str (validate_data whole_str (raw_state late_outlier_example)))
     = rows_of (validate_data whole_str (raw_state late_outlier_example))
   \<and> rows_of (validate_data whole_str (raw_state late_outlier_example)) \<noteq> None"
proof -
  let ?raw = "\<lparr>rows = late_outlier_example, validation_issues = None, fix_suggestions = None\<rparr>"
  have raw: "df_raw (raw_state late_outlier_example) = Some ?raw"
    by (simp add: raw_state_def)
  have ok: "\<forall>j<length (rows ?raw). row_ok (rows ?raw) (rows ?raw ! j)"
    unfolding all_rows_ok_iff
    by (simp add: late_outlier_example_def example_row_def isna_def)
  from validate_data_ok [OF raw ok, of whole_str]
  obtain s where run: "validate_data whole_str (raw_state late_outlier_example) = Inr (validated s)"
    by blast
  from revalidation_keeps_rows [OF run] obtain g' out out' where
    "validate_data whole_str (validated s) = Inr g'"
    "df_validated (validated s) = Some out" "df_validated g' = Some out'" "rows out' = rows out"
    by blast
  with run show ?thesis
    by (simp add: rows_of_def revalidate_def)
qed

section \<open>Cells left absent\<close>

text \<open>
  Claim C2 at a frame of one row whose age is absent: the mean of a column without numbers
  is \<open>nan\<close>, line 86 stores it, and the age is absent after validation, recorded as
  filled. The same at a frame of one row whose \<open>date_joined\<close> is absent: the parse of an
  absent value raises nothing, so no rule touches the cell and no issue is recorded.
\<close>

theorem absent_age_stays_absent:
  "map_option (map age) (rows_of (validate_data whole_str (raw_state [example_row\<lparr>age := NA\<rparr>])))
     = Some [NA]
   \<and> issues_of (validate_data whole_str (raw_state [example_row\<lparr>age := NA\<rparr>]))
     = Some [''Missing age'']
   \<and> fixes_of (validate_data whole_str (raw_state [example_row\<lparr>age := NA\<rparr>]))
     = Some [''Filled age with average age nan'']
   \<and> map_option (map date_joined)
        (rows_of (validate_data whole_str (raw_state [example_row\<lparr>date_joined := NA\<rparr>])))
     = Some [NA]
   \<and> issues_of (validate_data whole_str (raw_state [example_row\<lparr>date_joined := NA\<rparr>]))
     = Some [ [] ]"
  by (simp add: eval_simps quantile99_def Let_def del: to_datetime_ok.simps(3))

section \<open>The outlier note\<close>

lemma nums_append: "nums (xs @ ys) = nums xs @ nums ys"
  by (induction xs rule: nums.induct) simp_all

lemma nums_replicate: "nums (replicate n (Num x)) = replicate n x"
  by (induction n) simp_all

lemma mostly_zero_balances: "map balance mostly_zero = replicate 100 (Num 0) @ [Num 5]"
  by (simp add: mostly_zero_def example_row_def)

lemma mostly_zero_thresh: "balance_thresh_of mostly_zero = Some (Fin 0)"
proof -
  have n: "nums (map balance mostly_zero) = replicate 100 0 @ [5]"
    by (simp add: mostly_zero_balances nums_append nums_replicate)
  have "sorted (replicate 100 (0::rat) @ [5])"
    by (simp add: sorted_append)
  then have s: "sort (nums (map balance mostly_zero)) = replicate 100 0 @ [5]"
    using n by (simp add: sorted_sort_id)
  have t: "\<not> list_ex is_text (map balance mostly_zero)"
    by (simp add: mostly_zero_balances list_ex_iff)
  have "(replicate 100 (0::rat) @ [5]) ! 99 = 0"
    by (simp add: nth_append)
  with s have "quantile99 (map balance mostly_zero) = Fin 0"
    by (simp add: quantile99_def Let_def)
  with t show ?thesis by (simp add: balance_thresh_of_def is_numeric_dtype_def)
qed

lemma mostly_zero_rows:
  assumes "r \<in> set mostly_zero"
  shows "row_issue_list (Some (Fin 0)) r = []" and "row_ok mostly_zero r"
proof -
  from assms have r: "r = example_row\<lparr>balance := Num 0\<rparr> \<or> r = example_row\<lparr>balance := Num 5\<rparr>"
    by (auto simp add: mostly_zero_def)
  then show "row_issue_list (Some (Fin 0)) r = []"
    by (auto simp add: row_issue_list_def msgs_def example_row_def isna_def bad_balance_def
          above_thresh_def date_ok simp del: to_datetime_ok.simps)
  from r show "row_ok mostly_zero r"
    by (auto simp add: row_ok_def example_row_def isna_def)
qed

text \<open>
  Claim C4 at a frame of 101 rows, a hundred with balance 0 and one with balance 5: the
  balance column is numeric, its 99th percentile is 0, the last row lies above it, and no
  row gets \<open>Outlier in balance\<close>, because line 102 tests the truth value of the
  threshold and \<open>0.0\<close> is false.
\<close>

theorem zero_threshold_flags_nothing:
  "balance_thresh_of mostly_zero = Some (Fin 0)
   \<and> py_gt (balance (mostly_zero ! 100)) (Fin 0) = Inr True
   \<and> issues_of (validate_data whole_str (raw_state mostly_zero)) = Some (replicate 101 [])"
proof -
  let ?raw = "\<lparr>rows = mostly_zero, validation_issues = None, fix_suggestions = None\<rparr>"
  have raw: "df_raw (raw_state mostly_zero) = Some ?raw" by (simp add: raw_state_def)
  have len: "length mostly_zero = 101" by (simp add: mostly_zero_def)
  have ok: "\<forall>j<length (rows ?raw). row_ok (rows ?raw) (rows ?raw ! j)"
    using mostly_zero_rows(2) by simp
  from validate_data_ok [OF raw ok, of whole_str] obtain s0 where
    run: "validate_data whole_str (raw_state mostly_zero) = Inr (validated s0)" by blast
  from validate_data_run [OF run raw] obtain s where g: "validated s0 = validated s"
    and li: "length (issues s) = length (rows ?raw)"
    and rows: "\<forall>j<length (rows ?raw).
        df s ! j = repair_row (customer_id (df s ! j)) (mean_val (map age (rows ?raw))) (rows ?raw ! j)
      \<and> issues s ! j = join ''; '' (row_issue_list (balance_thresh_of (rows ?raw)) (rows ?raw ! j))
      \<and> fixes s ! j = join ''; '' (row_fix_list (text_of (customer_id (df s ! j)))
                                      (mean_val (map age (rows ?raw))) (rows ?raw ! j))
      \<and> row_ok (rows ?raw) (rows ?raw ! j)"
    by blast
  have "issues s = replicate 101 []"
  proof (rule nth_equalityI)
    show "length (issues s) = length (replicate 101 ([]::string))" using li len by simp
    fix j assume "j < length (issues s)"
    with li len have j: "j < length mostly_zero" "j < 101" by simp_all
    from j(1) have "mostly_zero ! j \<in> set mostly_zero" by simp
    from mostly_zero_rows(1) [OF this] rows j(1) mostly_zero_thresh
    have "issues s ! j = []" by simp
    with j(2) show "issues s ! j = replicate 101 [] ! j" by simp
  qed
  with run g have c: "issues_of (validate_data whole_str (raw_state mostly_zero)) = Some (replicate 101 [])"
    by (simp add: issues_of_def validated_def)
  have b: "py_gt (balance (mostly_zero ! 100)) (Fin 0) = Inr True"
    by (simp add: mostly_zero_def nth_append example_row_def)
  from mostly_zero_thresh b c show ?thesis by blast
qed

end
